theory Spec2Isabelle
  imports Main "HOL-Library.Word"
begin

unbundle bit_operations_syntax

section \<open>PID collections of the transport stream demultiplexer (pkg/scte35/pids.go)\<close>

type_synonym byte = "8 word"
type_synonym uint16 = "16 word"
type_synonym uint32 = "32 word"
type_synonym uint64 = "64 word"

text \<open>\<^verbatim>\<open>isIn16\<close> is a test for slice membership: a linear scan that returns at the first hit.\<close>

fun isIn16 :: "uint16 list \<Rightarrow> uint16 \<Rightarrow> bool" where
  "isIn16 [] val = False"
| "isIn16 (item # items) val = (if item = val then True else isIn16 items val)"

record PIDs =
  PMTPIDs :: "uint16 list"
  PCRPIDs :: "uint16 list"
  SCTE35PIDs :: "uint16 list"

definition isPMTPID :: "'a PIDs_scheme \<Rightarrow> uint16 \<Rightarrow> bool" where
  "isPMTPID p pid = isIn16 (PMTPIDs p) pid"

definition addPMTPID :: "'a PIDs_scheme \<Rightarrow> uint16 \<Rightarrow> 'a PIDs_scheme" where
  "addPMTPID p pid = (if \<not> isPMTPID p pid then p\<lparr>PMTPIDs := PMTPIDs p @ [pid]\<rparr> else p)"

definition isPCRPID :: "'a PIDs_scheme \<Rightarrow> uint16 \<Rightarrow> bool" where
  "isPCRPID p pid = isIn16 (PCRPIDs p) pid"

definition addPCRPID :: "'a PIDs_scheme \<Rightarrow> uint16 \<Rightarrow> 'a PIDs_scheme" where
  "addPCRPID p pid = (if \<not> isPCRPID p pid then p\<lparr>PCRPIDs := PCRPIDs p @ [pid]\<rparr> else p)"

definition isSCTE35PID :: "'a PIDs_scheme \<Rightarrow> uint16 \<Rightarrow> bool" where
  "isSCTE35PID p pid = isIn16 (SCTE35PIDs p) pid"

definition addSCTE35PID :: "'a PIDs_scheme \<Rightarrow> uint16 \<Rightarrow> 'a PIDs_scheme" where
  "addSCTE35PID p pid = (if \<not> isSCTE35PID p pid then p\<lparr>SCTE35PIDs := SCTE35PIDs p @ [pid]\<rparr> else p)"

text \<open>
  \<^verbatim>\<open>delSCTE35PID\<close> compacts the slice in place. The range loop runs over the
  indices \<open>i < len\<close> of the slice header taken at loop entry and reads element \<open>i\<close>
  of the shared backing array; every value different from \<open>pid\<close> is stored at index
  \<open>n\<close> of that same array. Finally the slice is cut to \<open>[:n]\<close>.
\<close>

function delLoop :: "uint16 \<Rightarrow> uint16 list \<Rightarrow> nat \<Rightarrow> nat \<Rightarrow> nat \<Rightarrow> uint16 list \<times> nat" where
  "delLoop pid arr n i len =
     (if i < len then
        (let val = arr ! i in
         if val \<noteq> pid then delLoop pid (arr[n := val]) (Suc n) (Suc i) len
         else delLoop pid arr n (Suc i) len)
      else (arr, n))"
  by pat_completeness auto
termination
  by (relation "measure (\<lambda>(pid, arr, n, i, len). len - i)") auto

declare delLoop.simps [simp del]

definition delSCTE35PID :: "'a PIDs_scheme \<Rightarrow> uint16 \<Rightarrow> 'a PIDs_scheme" where
  "delSCTE35PID p pid =
     (case delLoop pid (SCTE35PIDs p) 0 0 (length (SCTE35PIDs p)) of
        (arr, n) \<Rightarrow> p\<lparr>SCTE35PIDs := take n arr\<rparr>)"

text \<open>The operations through which the demultiplexer changes its PID collections.\<close>

datatype pid_op = AddPMT uint16 | AddPCR uint16 | AddSCTE35 uint16 | DelSCTE35 uint16

fun apply_pid_op :: "'a PIDs_scheme \<Rightarrow> pid_op \<Rightarrow> 'a PIDs_scheme" where
  "apply_pid_op p (AddPMT pid) = addPMTPID p pid"
| "apply_pid_op p (AddPCR pid) = addPCRPID p pid"
| "apply_pid_op p (AddSCTE35 pid) = addSCTE35PID p pid"
| "apply_pid_op p (DelSCTE35 pid) = delSCTE35PID p pid"

definition zeroPIDs :: PIDs where
  "zeroPIDs = \<lparr>PMTPIDs = [], PCRPIDs = [], SCTE35PIDs = []\<rparr>"

definition pids_distinct :: "'a PIDs_scheme \<Rightarrow> bool" where
  "pids_distinct p \<longleftrightarrow> distinct (PMTPIDs p) \<and> distinct (PCRPIDs p) \<and> distinct (SCTE35PIDs p)"



section \<open>Bit-granular reader and writer\<close>

text \<open>
  Bit strings are lists of booleans, most significant bit first. \<open>nat_to_bits n v\<close> is the
  \<open>n\<close>-bit big-endian representation of the low \<open>n\<close> bits of \<open>v\<close>.
\<close>

fun nat_to_bits :: "nat \<Rightarrow> nat \<Rightarrow> bool list" where
  "nat_to_bits 0 v = []"
| "nat_to_bits (Suc n) v = nat_to_bits n (v div 2) @ [odd v]"

definition nat_of_bits :: "bool list \<Rightarrow> nat" where
  "nat_of_bits bs = foldl (\<lambda>a b. 2 * a + (if b then 1 else 0)) 0 bs"

definition bits_of_bytes :: "byte list \<Rightarrow> bool list" where
  "bits_of_bytes bs = concat (map (\<lambda>b. nat_to_bits 8 (unat b)) bs)"

text \<open>Whole bytes of a bit string; fewer than eight trailing bits are not a byte.\<close>

fun bytes_of_bits :: "bool list \<Rightarrow> byte list" where
  "bytes_of_bits (b7 # b6 # b5 # b4 # b3 # b2 # b1 # b0 # rest) =
     of_nat (nat_of_bits [b7, b6, b5, b4, b3, b2, b1, b0]) # bytes_of_bits rest"
| "bytes_of_bits _ = []"

datatype error = ErrBufferOverflow | ErrBufferUnderflow | ErrCRC32Invalid | ErrUnsupportedEncoding

text \<open>
  Modelled from the spec: the bit reader and writer of section 4.1 (BitIO). The source
  calls the external package \<^verbatim>\<open>github.com/bamiaux/iobit\<close> and the repository's helper
  \<^verbatim>\<open>readerError\<close>, neither of which is among the source files. The reader offers: read one bit
  as a boolean; read N bits as an unsigned value; skip N bits; read N bytes (only at a byte
  boundary); report the remaining bits and bytes. A read that would exceed the backing buffer
  latches an overflow condition; the final check reports \<open>ErrBufferOverflow\<close> for a latched
  overflow and \<open>ErrBufferUnderflow\<close> for unread trailing data.

  The reader state is the unread part of the buffer and the overflow latch. After an overflow
  nothing is left to read and every value read is zero. A value wider than its result type
  keeps its low bits.
\<close>

record Reader =
  unread :: "bool list"
  overflow :: bool

definition NewReader :: "byte list \<Rightarrow> Reader" where
  "NewReader buf = \<lparr>unread = bits_of_bytes buf, overflow = False\<rparr>"

definition rd_fail :: "Reader \<Rightarrow> Reader" where
  "rd_fail r = r\<lparr>unread := [], overflow := True\<rparr>"

definition LeftBits :: "Reader \<Rightarrow> nat" where
  "LeftBits r = length (unread r)"

definition LeftBytes :: "Reader \<Rightarrow> byte list" where
  "LeftBytes r = bytes_of_bits (unread r)"

definition Skip :: "nat \<Rightarrow> Reader \<Rightarrow> Reader" where
  "Skip n r = (if n \<le> LeftBits r then r\<lparr>unread := drop n (unread r)\<rparr> else rd_fail r)"

definition Bit :: "Reader \<Rightarrow> bool \<times> Reader" where
  "Bit r = (case unread r of [] \<Rightarrow> (False, rd_fail r) | b # bs \<Rightarrow> (b, r\<lparr>unread := bs\<rparr>))"

definition Uint32 :: "nat \<Rightarrow> Reader \<Rightarrow> uint32 \<times> Reader" where
  "Uint32 n r =
     (if n \<le> LeftBits r
      then (of_nat (nat_of_bits (take n (unread r))), r\<lparr>unread := drop n (unread r)\<rparr>)
      else (0, rd_fail r))"

definition Uint64 :: "nat \<Rightarrow> Reader \<Rightarrow> uint64 \<times> Reader" where
  "Uint64 n r =
     (if n \<le> LeftBits r
      then (of_nat (nat_of_bits (take n (unread r))), r\<lparr>unread := drop n (unread r)\<rparr>)
      else (0, rd_fail r))"

definition Bytes :: "nat \<Rightarrow> Reader \<Rightarrow> byte list \<times> Reader" where
  "Bytes n r =
     (if LeftBits r mod 8 = 0 \<and> 8 * n \<le> LeftBits r
      then (bytes_of_bits (take (8 * n) (unread r)), r\<lparr>unread := drop (8 * n) (unread r)\<rparr>)
      else ([], rd_fail r))"

definition readerError :: "Reader \<Rightarrow> error option" where
  "readerError r =
     (if overflow r then Some ErrBufferOverflow
      else if LeftBits r > 0 then Some ErrBufferUnderflow
      else None)"

text \<open>
  The writer fills a buffer that the caller sized beforehand (\<open>capacity\<close>, in bytes, all
  zero). It accepts N bits of an unsigned value (the low N bits, most significant first), a
  single bit, or a byte slice. The finished buffer holds the bits written, cut at the
  capacity, and keeps its zeros behind them; writing past the capacity is reported by
  \<open>Flush\<close>.
\<close>

record Writer =
  written :: "bool list"
  capacity :: nat

definition NewWriter :: "nat \<Rightarrow> Writer" where
  "NewWriter n = \<lparr>written = [], capacity = n\<rparr>"

definition PutUint32 :: "nat \<Rightarrow> uint32 \<Rightarrow> Writer \<Rightarrow> Writer" where
  "PutUint32 n v w = w\<lparr>written := written w @ nat_to_bits n (unat v)\<rparr>"

definition PutUint64 :: "nat \<Rightarrow> uint64 \<Rightarrow> Writer \<Rightarrow> Writer" where
  "PutUint64 n v w = w\<lparr>written := written w @ nat_to_bits n (unat v)\<rparr>"

definition PutBit :: "bool \<Rightarrow> Writer \<Rightarrow> Writer" where
  "PutBit b w = w\<lparr>written := written w @ [b]\<rparr>"

definition Write :: "byte list \<Rightarrow> Writer \<Rightarrow> Writer" where
  "Write bs w = w\<lparr>written := written w @ bits_of_bytes bs\<rparr>"

definition buffer :: "Writer \<Rightarrow> byte list" where
  "buffer w =
     bytes_of_bits (take (8 * capacity w)
       (written w @ replicate (8 * capacity w - length (written w)) False))"

definition Flush :: "Writer \<Rightarrow> error option" where
  "Flush w = (if length (written w) > 8 * capacity w then Some ErrBufferOverflow else None)"

section \<open>Library functions of Go used by the UPID codec\<close>

text \<open>
  Go strings and byte slices are both sequences of bytes; \<open>str\<close> turns a literal into its
  bytes.
\<close>

definition str :: "string \<Rightarrow> byte list" where
  "str s = map (\<lambda>c. of_nat (of_char c)) s"

text \<open>\<^verbatim>\<open>%d\<close> of an unsigned value and \<^verbatim>\<open>strconv.FormatUint(v, 10)\<close>: decimal digits, no padding.\<close>

definition digit_char :: "nat \<Rightarrow> byte" where
  "digit_char d = of_nat (48 + d)"

function decimal :: "nat \<Rightarrow> byte list" where
  "decimal n = (if n < 10 then [digit_char n] else decimal (n div 10) @ [digit_char (n mod 10)])"
  by pat_completeness auto
termination
  by (relation "measure id") auto

declare decimal.simps [simp del]

text \<open>
  \<^verbatim>\<open>strconv.Atoi\<close> on a 64-bit platform: an optional sign followed by at least one decimal
  digit and nothing else; a value outside the range of \<^verbatim>\<open>int\<close> is an error.
\<close>

definition is_digit :: "byte \<Rightarrow> bool" where
  "is_digit c \<longleftrightarrow> 0x30 \<le> c \<and> c \<le> 0x39"

definition digits_value :: "byte list \<Rightarrow> nat" where
  "digits_value ds = foldl (\<lambda>a c. 10 * a + (unat c - 48)) 0 ds"

definition Atoi :: "byte list \<Rightarrow> int option" where
  "Atoi s =
     (let neg = (s \<noteq> [] \<and> hd s = 0x2D);
          ds = (if s \<noteq> [] \<and> (hd s = 0x2B \<or> hd s = 0x2D) then tl s else s)
      in if ds = [] \<or> \<not> list_all is_digit ds then None
         else if neg then
           (if digits_value ds \<le> 2 ^ 63 then Some (- int (digits_value ds)) else None)
         else
           (if digits_value ds < 2 ^ 63 then Some (int (digits_value ds)) else None))"

text \<open>
  \<^verbatim>\<open>%X\<close> of a byte slice and \<^verbatim>\<open>hex.DecodeString\<close>. The decoder accepts both cases, stops
  at the first byte that is not a hexadecimal digit and rejects an odd length; together with
  the verdict it returns the bytes decoded up to that point.
\<close>

definition hex_char :: "nat \<Rightarrow> byte" where
  "hex_char d = (if d < 10 then of_nat (48 + d) else of_nat (55 + d))"

definition hex_upper :: "byte list \<Rightarrow> byte list" where
  "hex_upper bs = concat (map (\<lambda>b. [hex_char (unat b div 16), hex_char (unat b mod 16)]) bs)"

definition fromHexChar :: "byte \<Rightarrow> nat option" where
  "fromHexChar c =
     (if 0x30 \<le> c \<and> c \<le> 0x39 then Some (unat c - 48)
      else if 0x61 \<le> c \<and> c \<le> 0x66 then Some (unat c - 87)
      else if 0x41 \<le> c \<and> c \<le> 0x46 then Some (unat c - 55)
      else None)"

fun hexDecodeString :: "byte list \<Rightarrow> byte list \<times> bool" where
  "hexDecodeString [] = ([], True)"
| "hexDecodeString [p] = ([], False)"
| "hexDecodeString (p # q # rest) =
     (case fromHexChar p of
        None \<Rightarrow> ([], False)
      | Some a \<Rightarrow>
          (case fromHexChar q of
             None \<Rightarrow> ([], False)
           | Some b \<Rightarrow>
               (case hexDecodeString rest of
                  (bs, ok) \<Rightarrow> (of_nat (16 * a + b) # bs, ok))))"

text \<open>
  \<^verbatim>\<open>strings.FieldsFunc\<close> with a predicate on single bytes: the maximal runs of bytes that
  do not satisfy the predicate. The source's predicate tests for the runes \<open>.\<close> and \<open>/\<close>;
  both are ASCII, and in Go's UTF-8 decoding a byte below 0x80 is always a rune of its own, so
  the split points are exactly the bytes 0x2E and 0x2F.
\<close>

fun fieldsFrom :: "(byte \<Rightarrow> bool) \<Rightarrow> byte list \<Rightarrow> byte list \<Rightarrow> byte list list" where
  "fieldsFrom f cur [] = (if cur = [] then [] else [cur])"
| "fieldsFrom f cur (c # cs) =
     (if f c then (if cur = [] then fieldsFrom f [] cs else cur # fieldsFrom f [] cs)
      else fieldsFrom f (cur @ [c]) cs)"

definition FieldsFunc :: "byte list \<Rightarrow> (byte \<Rightarrow> bool) \<Rightarrow> byte list list" where
  "FieldsFunc s f = fieldsFrom f [] s"

text \<open>
  Standard base64 with padding (\<^verbatim>\<open>base64.StdEncoding\<close>). \<open>EncodeToString\<close> maps three
  bytes to four characters and pads the last group with \<open>=\<close>.
\<close>

definition b64_char :: "nat \<Rightarrow> byte" where
  "b64_char v =
     (if v < 26 then of_nat (65 + v)
      else if v < 52 then of_nat (71 + v)
      else if v < 62 then of_nat (v - 4)
      else if v = 62 then 0x2B
      else 0x2F)"

fun EncodeToString :: "byte list \<Rightarrow> byte list" where
  "EncodeToString [] = []"
| "EncodeToString [a] =
     [b64_char (unat a div 4), b64_char (unat a mod 4 * 16), 0x3D, 0x3D]"
| "EncodeToString [a, b] =
     [b64_char (unat a div 4), b64_char (unat a mod 4 * 16 + unat b div 16),
      b64_char (unat b mod 16 * 4), 0x3D]"
| "EncodeToString (a # b # c # rest) =
     [b64_char (unat a div 4), b64_char (unat a mod 4 * 16 + unat b div 16),
      b64_char (unat b mod 16 * 4 + unat c div 64), b64_char (unat c mod 64)]
     @ EncodeToString rest"

text \<open>
  \<open>DecodeString\<close> ignores carriage returns and line feeds, reads four characters at a
  time, accepts padding only in the last group and nothing behind it. Like the hex decoder it
  returns the bytes of the groups decoded before an error together with the verdict.
\<close>

definition b64_value :: "byte \<Rightarrow> nat option" where
  "b64_value c =
     (if 0x41 \<le> c \<and> c \<le> 0x5A then Some (unat c - 65)
      else if 0x61 \<le> c \<and> c \<le> 0x7A then Some (unat c - 71)
      else if 0x30 \<le> c \<and> c \<le> 0x39 then Some (unat c + 4)
      else if c = 0x2B then Some 62
      else if c = 0x2F then Some 63
      else None)"

fun b64_groups :: "byte list \<Rightarrow> byte list \<times> bool" where
  "b64_groups (c0 # c1 # c2 # c3 # rest) =
     (case (b64_value c0, b64_value c1) of
        (Some v0, Some v1) \<Rightarrow>
          (case b64_value c2 of
             Some v2 \<Rightarrow>
               (case b64_value c3 of
                  Some v3 \<Rightarrow>
                    (case b64_groups rest of
                       (bs, ok) \<Rightarrow>
                         (of_nat (v0 * 4 + v1 div 16) # of_nat (v1 mod 16 * 16 + v2 div 4)
                            # of_nat (v2 mod 4 * 64 + v3) # bs, ok))
                | None \<Rightarrow>
                    (if c3 = 0x3D
                     then ([of_nat (v0 * 4 + v1 div 16), of_nat (v1 mod 16 * 16 + v2 div 4)],
                           rest = [])
                     else ([], False)))
           | None \<Rightarrow>
               (if c2 = 0x3D \<and> c3 = 0x3D then ([of_nat (v0 * 4 + v1 div 16)], rest = [])
                else ([], False)))
      | _ \<Rightarrow> ([], False))"
| "b64_groups [] = ([], True)"
| "b64_groups _ = ([], False)"

definition DecodeString :: "byte list \<Rightarrow> byte list \<times> bool" where
  "DecodeString s = b64_groups (filter (\<lambda>c. c \<noteq> 0x0A \<and> c \<noteq> 0x0D) s)"

text \<open>\<^verbatim>\<open>utf8.Valid\<close>: the well-formed byte sequences of UTF-8.\<close>

definition cont :: "byte \<Rightarrow> bool" where
  "cont c \<longleftrightarrow> 0x80 \<le> c \<and> c \<le> 0xBF"

fun utf8_valid :: "byte list \<Rightarrow> bool" where
  "utf8_valid [] = True"
| "utf8_valid (c # cs) =
     (if c < 0x80 then utf8_valid cs
      else if 0xC2 \<le> c \<and> c \<le> 0xDF then
        (case cs of c1 # r \<Rightarrow> cont c1 \<and> utf8_valid r | _ \<Rightarrow> False)
      else if 0xE0 \<le> c \<and> c \<le> 0xEF then
        (case cs of
           c1 # c2 # r \<Rightarrow>
             (if c = 0xE0 then 0xA0 \<le> c1 \<and> c1 \<le> 0xBF
              else if c = 0xED then 0x80 \<le> c1 \<and> c1 \<le> 0x9F
              else cont c1) \<and> cont c2 \<and> utf8_valid r
         | _ \<Rightarrow> False)
      else if 0xF0 \<le> c \<and> c \<le> 0xF4 then
        (case cs of
           c1 # c2 # c3 # r \<Rightarrow>
             (if c = 0xF0 then 0x90 \<le> c1 \<and> c1 \<le> 0xBF
              else if c = 0xF4 then 0x80 \<le> c1 \<and> c1 \<le> 0x8F
              else cont c1) \<and> cont c2 \<and> cont c3 \<and> utf8_valid r
         | _ \<Rightarrow> False)
      else False)"


section \<open>Segmentation UPIDs (pkg/scte35/segmentation_upid.go)\<close>

definition SegmentationUPIDTypeISANDeprecated :: uint32 where "SegmentationUPIDTypeISANDeprecated = 0x05"
definition SegmentationUPIDTypeISAN :: uint32 where "SegmentationUPIDTypeISAN = 0x06"
definition SegmentationUPIDTypeTI :: uint32 where "SegmentationUPIDTypeTI = 0x08"
definition SegmentationUPIDTypeEIDR :: uint32 where "SegmentationUPIDTypeEIDR = 0x0a"
definition SegmentationUPIDTypeMPU :: uint32 where "SegmentationUPIDTypeMPU = 0x0c"
definition SegmentationUPIDTypeMID :: uint32 where "SegmentationUPIDTypeMID = 0x0d"

text \<open>
  \<open>FormatIdentifier\<close> is a pointer in the source (absent when \<open>nil\<close>); \<open>Format\<close> and
  \<open>Value\<close> are Go strings.
\<close>

record SegmentationUPID =
  Type :: uint32
  FormatIdentifier :: "uint32 option"
  Format :: "byte list"
  Value :: "byte list"

text \<open>
  \<^verbatim>\<open>canonicalEIDR\<close>: a value that contains a slash is taken to be canonical text already;
  any other value must have twelve bytes and is rendered as
  \<^verbatim>\<open>10.<decimal of bytes 0-1>/<hex 2-3>-<hex 4-5>-<hex 6-7>-<hex 8-9>-<hex 10-11>\<close>.
\<close>

definition canonicalEIDR :: "byte list \<Rightarrow> byte list" where
  "canonicalEIDR b =
     (if 0x2F \<in> set b then b
      else if length b \<noteq> 12 then []
      else str ''10.'' @ decimal (nat_of_bits (bits_of_bytes (take 2 b))) @ str ''/''
           @ hex_upper (take 2 (drop 2 b)) @ str ''-''
           @ hex_upper (take 2 (drop 4 b)) @ str ''-''
           @ hex_upper (take 2 (drop 6 b)) @ str ''-''
           @ hex_upper (take 2 (drop 8 b)) @ str ''-''
           @ hex_upper (take 2 (drop 10 b)))"

text \<open>
  \<^verbatim>\<open>NewSegmentationUPID\<close> of pkg/scte35/segmentation_upid.go: the value decoder, dispatched
  on the UPID type.
\<close>

definition NewSegmentationUPID :: "uint32 \<Rightarrow> byte list \<Rightarrow> SegmentationUPID" where
  "NewSegmentationUPID upidType buf =
     (let r = NewReader buf in
      if upidType = SegmentationUPIDTypeEIDR then
        \<lparr>Type = upidType, FormatIdentifier = None, Format = str ''text'',
         Value = canonicalEIDR (LeftBytes r)\<rparr>
      else if upidType = SegmentationUPIDTypeISAN \<or> upidType = SegmentationUPIDTypeISANDeprecated then
        \<lparr>Type = upidType, FormatIdentifier = None, Format = str ''base-64'',
         Value = EncodeToString (LeftBytes r)\<rparr>
      else if upidType = SegmentationUPIDTypeMPU then
        (case Uint32 32 r of
           (fi, r1) \<Rightarrow>
             \<lparr>Type = upidType, FormatIdentifier = Some fi, Format = str ''base-64'',
              Value = EncodeToString (LeftBytes r1)\<rparr>)
      else if upidType = SegmentationUPIDTypeTI then
        \<lparr>Type = upidType, FormatIdentifier = None, Format = str ''text'',
         Value = decimal (unat (fst (Uint64 (LeftBits r) r)))\<rparr>
      else
        \<lparr>Type = upidType, FormatIdentifier = None, Format = str ''text'',
         Value = LeftBytes r\<rparr>)"

text \<open>
  The later revision of the same file (unnamed/part\_005) has no \<open>Format\<close> any more and
  decodes the plain-text types with \<^verbatim>\<open>DecodeASCII\<close>, which runs the bytes through the
  US-ASCII decoder of \<^verbatim>\<open>golang.org/x/text\<close>: a byte above 0x7F becomes the replacement
  character U+FFFD (the bytes EF BF BD), every other byte is kept. The decoder reports no
  error, so the \<^verbatim>\<open>"invalid encoding"\<close> branch is never taken.
\<close>

definition DecodeASCII :: "byte list \<Rightarrow> byte list" where
  "DecodeASCII b = concat (map (\<lambda>c. if c > 0x7F then [0xEF, 0xBF, 0xBD] else [c]) b)"

definition NewSegmentationUPID_ascii :: "uint32 \<Rightarrow> byte list \<Rightarrow> SegmentationUPID" where
  "NewSegmentationUPID_ascii upidType buf =
     (let r = NewReader buf in
      if upidType = SegmentationUPIDTypeEIDR then
        \<lparr>Type = upidType, FormatIdentifier = None, Format = [],
         Value = canonicalEIDR (LeftBytes r)\<rparr>
      else if upidType = SegmentationUPIDTypeISAN \<or> upidType = SegmentationUPIDTypeISANDeprecated then
        \<lparr>Type = upidType, FormatIdentifier = None, Format = [],
         Value = EncodeToString (LeftBytes r)\<rparr>
      else if upidType = SegmentationUPIDTypeMPU then
        (case Uint32 32 r of
           (fi, r1) \<Rightarrow>
             \<lparr>Type = upidType, FormatIdentifier = Some fi, Format = [],
              Value = EncodeToString (LeftBytes r1)\<rparr>)
      else if upidType = SegmentationUPIDTypeTI then
        \<lparr>Type = upidType, FormatIdentifier = None, Format = [],
         Value = decimal (unat (fst (Uint64 (LeftBits r) r)))\<rparr>
      else
        \<lparr>Type = upidType, FormatIdentifier = None, Format = [],
         Value = DecodeASCII (LeftBytes r)\<rparr>)"

text \<open>
  \<^verbatim>\<open>compressEIDR\<close>: split the text at dots and slashes; unless there are exactly three
  fields, the middle one a decimal number and the last one hexadecimal once its hyphens are
  removed, the text itself is returned as bytes. Otherwise the low 16 bits of the number and
  then the decoded bytes are written into a buffer of twelve zero bytes.
\<close>

definition compressEIDR :: "byte list \<Rightarrow> byte list" where
  "compressEIDR s =
     (let parts = FieldsFunc s (\<lambda>r. r = 0x2E \<or> r = 0x2F) in
      if length parts \<noteq> 3 then s
      else
        (case Atoi (parts ! 1) of
           None \<Rightarrow> s
         | Some i \<Rightarrow>
             (let iow = PutUint32 16 (word_of_int i) (NewWriter 12) in
              case hexDecodeString (filter (\<lambda>c. c \<noteq> 0x2D) (parts ! 2)) of
                (h, ok) \<Rightarrow> if \<not> ok then s else buffer (Write h iow))))"

text \<open>\<^verbatim>\<open>binary.BigEndian.PutUint32\<close> and \<^verbatim>\<open>PutUint64\<close> into a fresh buffer.\<close>

definition be32 :: "uint32 \<Rightarrow> byte list" where
  "be32 v = bytes_of_bits (nat_to_bits 32 (unat v))"

definition be64 :: "uint64 \<Rightarrow> byte list" where
  "be64 v = bytes_of_bits (nat_to_bits 64 (unat v))"

text \<open>
  \<^verbatim>\<open>valueBytes\<close> returns the value as bytes. The MPU case dereferences
  \<open>FormatIdentifier\<close>; on a \<open>nil\<close> pointer the program panics, which is the result
  \<open>None\<close> here. The errors of the base64 and hex decoders are discarded and the bytes decoded
  so far are used.
\<close>

definition valueBytes :: "SegmentationUPID \<Rightarrow> byte list option" where
  "valueBytes upid =
     (if Type upid = SegmentationUPIDTypeMPU then
        (case FormatIdentifier upid of
           None \<Rightarrow> None
         | Some fi \<Rightarrow> Some (be32 fi @ fst (DecodeString (Value upid))))
      else if Type upid = SegmentationUPIDTypeEIDR then Some (compressEIDR (Value upid))
      else if Type upid = SegmentationUPIDTypeTI then
        Some (case Atoi (Value upid) of
                Some i \<Rightarrow> be64 (word_of_int i)
              | None \<Rightarrow> replicate 8 0)
      else if Format upid = str ''hexbinary'' then Some (fst (hexDecodeString (Value upid)))
      else if Format upid = str ''base-64'' then Some (fst (DecodeString (Value upid)))
      else Some (Value upid))"


section \<open>Segmentation descriptor (unnamed/part\_004, segmentation\_descriptor.go)\<close>

definition SegmentationDescriptorTag :: uint32 where "SegmentationDescriptorTag = 0x02"
definition SegmentationTypeProviderPOStart :: uint32 where "SegmentationTypeProviderPOStart = 0x34"
definition SegmentationTypeDistributorPOStart :: uint32 where "SegmentationTypeDistributorPOStart = 0x36"

text \<open>
  \<open>CUEIdentifier\<close> is declared outside the source files; section 3 of the spec gives its
  value, the four ASCII characters CUEI. The constant \<^verbatim>\<open>Reserved\<close>, the pattern written
  into reserved bits, is declared outside the source files too and is a parameter
  (\<open>rsv\<close>) of the encoder below.
\<close>

definition CUEIdentifier :: uint32 where "CUEIdentifier = 0x43554549"

record DeliveryRestrictions =
  WebDeliveryAllowedFlag :: bool
  NoRegionalBlackoutFlag :: bool
  ArchiveAllowedFlag :: bool
  DeviceRestrictions :: uint32

record SegmentationDescriptorComponent =
  Tag :: uint32
  PTSOffset :: uint64

text \<open>Pointer fields of the source are options; \<open>nil\<close> is \<open>None\<close>.\<close>

record SegmentationDescriptor =
  DeliveryRestrictionsOf :: "DeliveryRestrictions option"
  SegmentationUPIDs :: "SegmentationUPID list"
  Components :: "SegmentationDescriptorComponent list"
  SegmentationEventID :: uint32
  SegmentationEventCancelIndicator :: bool
  SegmentationDuration :: "uint64 option"
  SegmentationTypeID :: uint32
  SegmentNum :: uint32
  SegmentsExpected :: uint32
  SubSegmentNum :: "uint32 option"
  SubSegmentsExpected :: "uint32 option"

text \<open>The zero value \<^verbatim>\<open>SegmentationDescriptor{}\<close>.\<close>

definition zeroSegmentationDescriptor :: SegmentationDescriptor where
  "zeroSegmentationDescriptor =
     \<lparr>DeliveryRestrictionsOf = None, SegmentationUPIDs = [], Components = [],
      SegmentationEventID = 0, SegmentationEventCancelIndicator = False,
      SegmentationDuration = None, SegmentationTypeID = 0, SegmentNum = 0,
      SegmentsExpected = 0, SubSegmentNum = None, SubSegmentsExpected = None\<rparr>"

definition DeliveryNotRestrictedFlag :: "SegmentationDescriptor \<Rightarrow> bool" where
  "DeliveryNotRestrictedFlag sd \<longleftrightarrow> DeliveryRestrictionsOf sd = None"

definition ProgramSegmentationFlag :: "SegmentationDescriptor \<Rightarrow> bool" where
  "ProgramSegmentationFlag sd \<longleftrightarrow> length (Components sd) = 0"

definition SegmentationDurationFlag :: "SegmentationDescriptor \<Rightarrow> bool" where
  "SegmentationDurationFlag sd \<longleftrightarrow> SegmentationDuration sd \<noteq> None"

text \<open>
  \<^verbatim>\<open>SegmentationUpidLength\<close>: the length in bytes of the UPID field. A single UPID counts
  its value bytes; several UPIDs form a MID and each counts its type byte, its length byte and
  its value bytes. A panic of \<open>valueBytes\<close> propagates.
\<close>

fun midLength :: "SegmentationUPID list \<Rightarrow> nat option" where
  "midLength [] = Some 0"
| "midLength (upid # upids) =
     (case valueBytes upid of
        None \<Rightarrow> None
      | Some vb \<Rightarrow>
          (case midLength upids of
             None \<Rightarrow> None
           | Some l \<Rightarrow> Some (8 + 8 + length vb * 8 + l)))"

definition SegmentationUpidLength :: "SegmentationDescriptor \<Rightarrow> nat option" where
  "SegmentationUpidLength sd =
     (if length (SegmentationUPIDs sd) = 1 then
        (case valueBytes (SegmentationUPIDs sd ! 0) of
           None \<Rightarrow> None
         | Some vb \<Rightarrow> Some ((length vb * 8) div 8))
      else if length (SegmentationUPIDs sd) > 1 then
        (case midLength (SegmentationUPIDs sd) of
           None \<Rightarrow> None
         | Some l \<Rightarrow> Some (l div 8))
      else Some 0)"

subsection \<open>decode\<close>

text \<open>The loop over \<open>componentCount\<close> components: tag, seven reserved bits, 33-bit offset.\<close>

fun decodeComponents :: "nat \<Rightarrow> Reader \<Rightarrow> SegmentationDescriptorComponent list \<times> Reader" where
  "decodeComponents 0 r = ([], r)"
| "decodeComponents (Suc k) r =
     (case Uint32 8 r of
        (tag, r1) \<Rightarrow>
          (case Uint64 33 (Skip 7 r1) of
             (pts, r2) \<Rightarrow>
               (case decodeComponents k r2 of
                  (cs, r3) \<Rightarrow> (\<lparr>Tag = tag, PTSOffset = pts\<rparr> # cs, r3))))"

text \<open>
  The loop over the UPIDs inside a MID: while bits are left, read a type, a length and that
  many bytes. The error state of this inner reader is never inspected.
\<close>

function decodeMID :: "Reader \<Rightarrow> SegmentationUPID list" where
  "decodeMID upidr =
     (if LeftBits upidr > 0 then
        (case Uint32 8 upidr of
           (upidType, r1) \<Rightarrow>
             (case Uint32 8 r1 of
                (upidLength, r2) \<Rightarrow>
                  (case Bytes (unat upidLength) r2 of
                     (upidValue, r3) \<Rightarrow> NewSegmentationUPID upidType upidValue # decodeMID r3)))
      else [])"
  by pat_completeness auto
termination
  by (relation "measure LeftBits")
     (auto simp: Uint32_def Bytes_def LeftBits_def rd_fail_def split: if_splits)

declare decodeMID.simps [simp del]

text \<open>
  The body of \<^verbatim>\<open>decode\<close> for a descriptor that is not cancelled, up to and including
  \<open>segments_expected\<close>. It returns the descriptor and the reader as they are at that point.
\<close>

definition decodeRestrictions :: "bool \<Rightarrow> Reader \<Rightarrow> DeliveryRestrictions option \<times> Reader" where
  "decodeRestrictions deliveryNotRestrictedFlag r =
     (if \<not> deliveryNotRestrictedFlag then
        (case Bit r of
           (web, r1) \<Rightarrow>
             (case Bit r1 of
                (blackout, r2) \<Rightarrow>
                  (case Bit r2 of
                     (archive, r3) \<Rightarrow>
                       (case Uint32 2 r3 of
                          (dev, r4) \<Rightarrow>
                            (Some \<lparr>WebDeliveryAllowedFlag = web, NoRegionalBlackoutFlag = blackout,
                                   ArchiveAllowedFlag = archive, DeviceRestrictions = dev\<rparr>, r4)))))
      else (None, Skip 5 r))"

definition decodeUPIDs :: "SegmentationDescriptor \<Rightarrow> Reader \<Rightarrow> SegmentationDescriptor \<times> Reader" where
  "decodeUPIDs sd r =
     (case Uint32 8 r of
        (segmentationUpidType, r1) \<Rightarrow>
          (case Uint32 8 r1 of
             (segmentationUpidLength, r2) \<Rightarrow>
               (if unat segmentationUpidLength > 0 then
                  (case Bytes (unat segmentationUpidLength) r2 of
                     (segmentationUpidValue, r3) \<Rightarrow>
                       (if segmentationUpidType = SegmentationUPIDTypeMID then
                          (sd\<lparr>SegmentationUPIDs := decodeMID (NewReader segmentationUpidValue)\<rparr>, r3)
                        else
                          (sd\<lparr>SegmentationUPIDs :=
                                [NewSegmentationUPID segmentationUpidType segmentationUpidValue]\<rparr>, r3)))
                else (sd, r2))))"

definition decodeFront :: "SegmentationDescriptor \<Rightarrow> Reader \<Rightarrow> SegmentationDescriptor \<times> Reader" where
  "decodeFront sd r =
     (case Bit r of
        (programSegmentationFlag, r1) \<Rightarrow>
      case Bit r1 of
        (segmentationDurationFlag, r2) \<Rightarrow>
      case Bit r2 of
        (deliveryNotRestrictedFlag, r3) \<Rightarrow>
      case decodeRestrictions deliveryNotRestrictedFlag r3 of
        (dr, r4) \<Rightarrow>
      let sd1 = (if \<not> deliveryNotRestrictedFlag then sd\<lparr>DeliveryRestrictionsOf := dr\<rparr> else sd) in
      case (if \<not> programSegmentationFlag then
              (case Uint32 8 r4 of
                 (componentCount, r5) \<Rightarrow>
                   (case decodeComponents (unat componentCount) r5 of
                      (cs, r6) \<Rightarrow> (sd1\<lparr>Components := cs\<rparr>, r6)))
            else (sd1, r4)) of
        (sd2, r7) \<Rightarrow>
      case (if segmentationDurationFlag then
              (case Uint64 40 r7 of (dur, r8) \<Rightarrow> (sd2\<lparr>SegmentationDuration := Some dur\<rparr>, r8))
            else (sd2, r7)) of
        (sd3, r9) \<Rightarrow>
      case decodeUPIDs sd3 r9 of
        (sd4, r10) \<Rightarrow>
      case Uint32 8 r10 of
        (typeID, r11) \<Rightarrow>
      case Uint32 8 r11 of
        (segNum, r12) \<Rightarrow>
      case Uint32 8 r12 of
        (segExp, r13) \<Rightarrow>
          (sd4\<lparr>SegmentationTypeID := typeID, SegmentNum := segNum, SegmentsExpected := segExp\<rparr>, r13))"

text \<open>
  The secondary check for the two fields added in 2016: they are read only for the two
  placement opportunity start types and only when exactly 16 bits are left.
\<close>

definition decodeSubSegments :: "SegmentationDescriptor \<Rightarrow> Reader \<Rightarrow> SegmentationDescriptor \<times> Reader" where
  "decodeSubSegments sd r =
     (if SegmentationTypeID sd = SegmentationTypeProviderPOStart
         \<or> SegmentationTypeID sd = SegmentationTypeDistributorPOStart then
        (if LeftBits r = 16 then
           (case Uint32 8 r of
              (n, r1) \<Rightarrow>
                (case Uint32 8 r1 of
                   (e, r2) \<Rightarrow> (sd\<lparr>SubSegmentNum := Some n, SubSegmentsExpected := Some e\<rparr>, r2)))
         else (sd, r))
      else (sd, r))"

text \<open>
  The reader after tag, length and identifier have been skipped and the event id, the
  cancel indicator and seven reserved bits have been read.
\<close>

definition decodeHead :: "SegmentationDescriptor \<Rightarrow> byte list \<Rightarrow> SegmentationDescriptor \<times> Reader" where
  "decodeHead sd b =
     (case Uint32 32 (Skip 32 (Skip 8 (Skip 8 (NewReader b)))) of
        (eventID, r1) \<Rightarrow>
          (case Bit r1 of
             (cancel, r2) \<Rightarrow>
               (sd\<lparr>SegmentationEventID := eventID, SegmentationEventCancelIndicator := cancel\<rparr>,
                Skip 7 r2)))"

text \<open>
  \<^verbatim>\<open>decode\<close> updates the descriptor \<open>sd\<close> from binary and returns the error of the final
  reader check (the source wraps it with the text \<^verbatim>\<open>segmentation_descriptor\<close>).
\<close>

definition decode_state :: "SegmentationDescriptor \<Rightarrow> byte list \<Rightarrow> SegmentationDescriptor \<times> Reader" where
  "decode_state sd b =
     (case decodeHead sd b of
        (sd1, r1) \<Rightarrow>
          (if \<not> SegmentationEventCancelIndicator sd1 then
             (case decodeFront sd1 r1 of (sd2, r2) \<Rightarrow> decodeSubSegments sd2 r2)
           else (sd1, r1)))"

definition decode :: "SegmentationDescriptor \<Rightarrow> byte list \<Rightarrow> SegmentationDescriptor \<times> error option" where
  "decode sd b = (case decode_state sd b of (sd', r) \<Rightarrow> (sd', readerError r))"

subsection \<open>encode\<close>

text \<open>
  \<^verbatim>\<open>length\<close> returns the descriptor length in bytes, computed in bits first. A panic of
  \<open>valueBytes\<close> propagates.
\<close>

definition length_bits :: "SegmentationDescriptor \<Rightarrow> nat option" where
  "length_bits sd =
     (if \<not> SegmentationEventCancelIndicator sd then
        (case SegmentationUpidLength sd of
           None \<Rightarrow> None
         | Some ul \<Rightarrow>
             Some (32 + 32 + 1 + 7 + 1 + 1 + 1 + 5
                   + (if \<not> ProgramSegmentationFlag sd then 8 + length (Components sd) * (8 + 7 + 33) else 0)
                   + (if SegmentationDurationFlag sd then 40 else 0)
                   + 8 + 8 + ul * 8 + 8 + 8 + 8
                   + (if SubSegmentNum sd \<noteq> None then 8 else 0)
                   + (if SubSegmentsExpected sd \<noteq> None then 8 else 0)))
      else Some (32 + 32 + 1 + 7))"

definition length_sd :: "SegmentationDescriptor \<Rightarrow> nat option" where
  "length_sd sd = (case length_bits sd of None \<Rightarrow> None | Some l \<Rightarrow> Some (l div 8))"

fun encodeComponents :: "uint32 \<Rightarrow> SegmentationDescriptorComponent list \<Rightarrow> Writer \<Rightarrow> Writer" where
  "encodeComponents rsv [] iow = iow"
| "encodeComponents rsv (c # cs) iow =
     encodeComponents rsv cs (PutUint64 33 (PTSOffset c) (PutUint32 7 rsv (PutUint32 8 (Tag c) iow)))"

fun encodeMID :: "SegmentationUPID list \<Rightarrow> Writer \<Rightarrow> Writer option" where
  "encodeMID [] iow = Some iow"
| "encodeMID (upid # upids) iow =
     (case valueBytes upid of
        None \<Rightarrow> None
      | Some vb \<Rightarrow>
          encodeMID upids (Write vb (PutUint32 8 (of_nat (length vb)) (PutUint32 8 (Type upid) iow))))"

text \<open>The three cases of the UPID field: none, one, several (a MID).\<close>

definition encodeUPIDs :: "SegmentationDescriptor \<Rightarrow> Writer \<Rightarrow> Writer option" where
  "encodeUPIDs sd iow =
     (if length (SegmentationUPIDs sd) = 0 then
        Some (PutUint32 8 0x00 (PutUint32 8 0x00 iow))
      else if length (SegmentationUPIDs sd) = 1 then
        (case valueBytes (SegmentationUPIDs sd ! 0) of
           None \<Rightarrow> None
         | Some vb \<Rightarrow>
             Some (Write vb (PutUint32 8 (of_nat (length vb))
                     (PutUint32 8 (Type (SegmentationUPIDs sd ! 0)) iow))))
      else
        (case SegmentationUpidLength sd of
           None \<Rightarrow> None
         | Some ul \<Rightarrow>
             encodeMID (SegmentationUPIDs sd)
               (PutUint32 8 (of_nat ul) (PutUint32 8 SegmentationUPIDTypeMID iow))))"

definition encodeFlags :: "uint32 \<Rightarrow> SegmentationDescriptor \<Rightarrow> Writer \<Rightarrow> Writer" where
  "encodeFlags rsv sd iow =
     (let iow1 = PutBit (DeliveryNotRestrictedFlag sd)
                   (PutBit (SegmentationDurationFlag sd) (PutBit (ProgramSegmentationFlag sd) iow));
          iow2 = (case DeliveryRestrictionsOf sd of
                    Some dr \<Rightarrow>
                      PutUint32 2 (DeviceRestrictions dr)
                        (PutBit (ArchiveAllowedFlag dr)
                          (PutBit (NoRegionalBlackoutFlag dr)
                            (PutBit (WebDeliveryAllowedFlag dr) iow1)))
                  | None \<Rightarrow> PutUint32 5 rsv iow1);
          iow3 = (if \<not> ProgramSegmentationFlag sd then
                    encodeComponents rsv (Components sd)
                      (PutUint32 8 (of_nat (length (Components sd))) iow2)
                  else iow2)
      in case SegmentationDuration sd of
           Some dur \<Rightarrow> PutUint64 40 dur iow3
         | None \<Rightarrow> iow3)"

definition encodeTail :: "SegmentationDescriptor \<Rightarrow> Writer \<Rightarrow> Writer" where
  "encodeTail sd iow =
     (let iow1 = PutUint32 8 (SegmentsExpected sd)
                   (PutUint32 8 (SegmentNum sd) (PutUint32 8 (SegmentationTypeID sd) iow));
          iow2 = (case SubSegmentNum sd of Some n \<Rightarrow> PutUint32 8 n iow1 | None \<Rightarrow> iow1)
      in case SubSegmentsExpected sd of Some e \<Rightarrow> PutUint32 8 e iow2 | None \<Rightarrow> iow2)"

text \<open>
  \<^verbatim>\<open>encode\<close> sizes the buffer with \<open>length\<close> plus two bytes for tag and length, writes
  the fields and returns the buffer with the error of \<open>Flush\<close>; \<open>None\<close> is a panic.
\<close>

definition encode_writer :: "uint32 \<Rightarrow> SegmentationDescriptor \<Rightarrow> Writer option" where
  "encode_writer rsv sd =
     (case length_sd sd of
        None \<Rightarrow> None
      | Some len \<Rightarrow>
          (let iow = PutUint32 7 rsv
                       (PutBit (SegmentationEventCancelIndicator sd)
                         (PutUint32 32 (SegmentationEventID sd)
                           (PutUint32 32 CUEIdentifier
                             (PutUint32 8 (of_nat len)
                               (PutUint32 8 SegmentationDescriptorTag (NewWriter (len + 2)))))))
           in if \<not> SegmentationEventCancelIndicator sd then
                (case encodeUPIDs sd (encodeFlags rsv sd iow) of
                   None \<Rightarrow> None
                 | Some iow1 \<Rightarrow> Some (encodeTail sd iow1))
              else Some iow))"

definition encode :: "uint32 \<Rightarrow> SegmentationDescriptor \<Rightarrow> (byte list \<times> error option) option" where
  "encode rsv sd =
     (case encode_writer rsv sd of
        None \<Rightarrow> None
      | Some iow \<Rightarrow> Some (buffer iow, Flush iow))"


subsection \<open>The wire layout of an encoded segmentation descriptor, in the words of the spec\<close>

text \<open>
  The following definitions describe the encoded form as the spec words it; the theorems
  compare them with \<open>encode\<close>. An optional 8-bit field is one byte when present and nothing
  otherwise; a UPID is written as its type byte, its length byte and its value bytes.
\<close>

definition opt_byte :: "uint32 option \<Rightarrow> byte list" where
  "opt_byte v = (case v of Some n \<Rightarrow> [ucast n] | None \<Rightarrow> [])"

definition upid_triple :: "uint32 \<Rightarrow> byte list \<Rightarrow> byte list" where
  "upid_triple t vb = [ucast t, of_nat (length vb)] @ vb"

text \<open>
  The UPID field for a list of UPIDs given by type and value bytes: a zero-typed,
  zero-length placeholder for the empty list; the UPID itself for a single one; for several,
  the outer type MID, the aggregate byte length of all inner triples, and the triples. Each
  field is eight bits wide, so types and lengths appear modulo 256.
\<close>

definition upid_field :: "(uint32 \<times> byte list) list \<Rightarrow> byte list" where
  "upid_field us =
     (case us of
        [] \<Rightarrow> [0x00, 0x00]
      | [(t, vb)] \<Rightarrow> upid_triple t vb
      | _ \<Rightarrow> [0x0D, of_nat (sum_list (map (\<lambda>(t, vb). 2 + length vb) us))]
             @ concat (map (\<lambda>(t, vb). upid_triple t vb) us))"

definition typed_values :: "SegmentationDescriptor \<Rightarrow> (uint32 \<times> byte list) list" where
  "typed_values sd = map (\<lambda>u. (Type u, the (valueBytes u))) (SegmentationUPIDs sd)"

definition values_defined :: "SegmentationDescriptor \<Rightarrow> bool" where
  "values_defined sd \<longleftrightarrow> list_all (\<lambda>u. valueBytes u \<noteq> None) (SegmentationUPIDs sd)"

text \<open>
  The number of bytes in front of the UPID field of a descriptor that is not cancelled: tag,
  length, identifier, event id, the cancel byte, the flag byte, the component list when
  there are components, and the duration when present.
\<close>

definition upid_offset :: "SegmentationDescriptor \<Rightarrow> nat" where
  "upid_offset sd =
     1 + 1 + 4 + 4 + 1 + 1
     + (if Components sd = [] then 0 else 1 + 6 * length (Components sd))
     + (if SegmentationDuration sd = None then 0 else 5)"

definition tail_field :: "SegmentationDescriptor \<Rightarrow> byte list" where
  "tail_field sd =
     [ucast (SegmentationTypeID sd), ucast (SegmentNum sd), ucast (SegmentsExpected sd)]
     @ opt_byte (SubSegmentNum sd) @ opt_byte (SubSegmentsExpected sd)"

text \<open>The cancelled form: tag, length 9, identifier, event id and the cancel byte.\<close>

definition cancelled_form :: "uint32 \<Rightarrow> SegmentationDescriptor \<Rightarrow> byte list" where
  "cancelled_form rsv sd =
     [0x02, 0x09, 0x43, 0x55, 0x45, 0x49] @ be32 (SegmentationEventID sd)
     @ bytes_of_bits (True # nat_to_bits 7 (unat rsv))"

text \<open>The bits in front of the UPID field, as the encoder lays them out.\<close>

definition component_bits :: "uint32 \<Rightarrow> SegmentationDescriptorComponent \<Rightarrow> bool list" where
  "component_bits rsv c =
     nat_to_bits 8 (unat (Tag c)) @ nat_to_bits 7 (unat rsv) @ nat_to_bits 33 (unat (PTSOffset c))"

definition flags_bits :: "uint32 \<Rightarrow> SegmentationDescriptor \<Rightarrow> bool list" where
  "flags_bits rsv sd =
     [ProgramSegmentationFlag sd, SegmentationDurationFlag sd, DeliveryNotRestrictedFlag sd]
     @ (case DeliveryRestrictionsOf sd of
          Some dr \<Rightarrow>
            [WebDeliveryAllowedFlag dr, NoRegionalBlackoutFlag dr, ArchiveAllowedFlag dr]
            @ nat_to_bits 2 (unat (DeviceRestrictions dr))
        | None \<Rightarrow> nat_to_bits 5 (unat rsv))
     @ (if Components sd = [] then []
        else nat_to_bits 8 (length (Components sd))
             @ concat (map (component_bits rsv) (Components sd)))
     @ (case SegmentationDuration sd of Some dur \<Rightarrow> nat_to_bits 40 (unat dur) | None \<Rightarrow> [])"

definition head_bits :: "uint32 \<Rightarrow> nat \<Rightarrow> SegmentationDescriptor \<Rightarrow> bool list" where
  "head_bits rsv len sd =
     nat_to_bits 8 2 @ nat_to_bits 8 len @ nat_to_bits 32 (unat CUEIdentifier)
     @ nat_to_bits 32 (unat (SegmentationEventID sd))
     @ [SegmentationEventCancelIndicator sd] @ nat_to_bits 7 (unat rsv)"

text \<open>
  The reader of \<open>decode\<close> at the point where \<open>segments_expected\<close> has just been read
  (for a descriptor that is not cancelled).
\<close>

definition after_segments_expected :: "byte list \<Rightarrow> Reader" where
  "after_segments_expected b =
     (case decodeHead zeroSegmentationDescriptor b of (sd1, r1) \<Rightarrow> snd (decodeFront sd1 r1))"


subsection \<open>Example descriptors\<close>

text \<open>
  The segmentation descriptor of the test vector ``Sample 14.1 time\_signal - Placement
  Opportunity Start'' (pkg/scte35/scte35\_test.go), as it appears on the wire.
\<close>

definition sample_14_1 :: "byte list" where
  "sample_14_1 =
     [0x02, 0x1C, 0x43, 0x55, 0x45, 0x49, 0x48, 0x00, 0x00, 0x8E, 0x7F, 0xCF, 0x00, 0x01, 0xA5,
      0x99, 0xB0, 0x08, 0x08, 0x00, 0x00, 0x00, 0x00, 0x2C, 0xA0, 0xA1, 0x8A, 0x34, 0x02, 0x00]"

definition sample_14_1_descriptor :: SegmentationDescriptor where
  "sample_14_1_descriptor =
     \<lparr>DeliveryRestrictionsOf =
        Some \<lparr>WebDeliveryAllowedFlag = False, NoRegionalBlackoutFlag = True,
              ArchiveAllowedFlag = True, DeviceRestrictions = 3\<rparr>,
      SegmentationUPIDs =
        [\<lparr>Type = 8, FormatIdentifier = None, Format = str ''text'', Value = str ''748724618''\<rparr>],
      Components = [], SegmentationEventID = 0x4800008E,
      SegmentationEventCancelIndicator = False,
      SegmentationDuration = Some 0x0001A599B0, SegmentationTypeID = 0x34,
      SegmentNum = 2, SegmentsExpected = 0, SubSegmentNum = None,
      SubSegmentsExpected = None\<rparr>"

text \<open>A descriptor whose only UPID is a URI of 256 characters.\<close>

definition long_uri_descriptor :: SegmentationDescriptor where
  "long_uri_descriptor =
     zeroSegmentationDescriptor
       \<lparr>SegmentationUPIDs :=
          [\<lparr>Type = 0x0F, FormatIdentifier = None, Format = str ''text'',
            Value = replicate 256 0x41\<rparr>]\<rparr>"

text \<open>A cancelled descriptor that carries a sub-segment number.\<close>

definition cancelled_with_sub_segment :: SegmentationDescriptor where
  "cancelled_with_sub_segment =
     zeroSegmentationDescriptor
       \<lparr>SegmentationEventCancelIndicator := True, SubSegmentNum := Some 1\<rparr>"

text \<open>
  The descriptor of Sample 14.1 followed by the two sub-segment bytes 1 and 3 (the length
  byte adjusted to 30).
\<close>

definition sample_with_sub_segments :: "byte list" where
  "sample_with_sub_segments =
     [0x02, 0x1E, 0x43, 0x55, 0x45, 0x49, 0x48, 0x00, 0x00, 0x8E, 0x7F, 0xCF, 0x00, 0x01, 0xA5,
      0x99, 0xB0, 0x08, 0x08, 0x00, 0x00, 0x00, 0x00, 0x2C, 0xA0, 0xA1, 0x8A, 0x34, 0x02, 0x00,
      0x01, 0x03]"

text \<open>
  The compressed EIDR of seed scenario 7, and an EIDR that arrives as canonical text.
\<close>

definition eidr_compressed :: "byte list" where
  "eidr_compressed = [0x14, 0x77, 0x8B, 0xE5, 0xE3, 0xF6, 0x00, 0x00, 0x00, 0x00, 0x00, 0x00]"

definition eidr_text :: "byte list" where
  "eidr_text = str ''10.5239/C370-DCA5-5779-7E7E-B510''"

text \<open>The separator predicate that \<open>compressEIDR\<close> passes to \<open>FieldsFunc\<close>.\<close>

definition eidr_separator :: "byte \<Rightarrow> bool" where
  "eidr_separator r \<longleftrightarrow> r = 0x2E \<or> r = 0x2F"

text \<open>
  The texts that \<open>compressEIDR\<close> compresses: exactly three fields between dots and
  slashes, the middle one a decimal number for \<^verbatim>\<open>strconv.Atoi\<close>, the last one hexadecimal
  once its hyphens are removed.
\<close>

definition eidr_compressible :: "byte list \<Rightarrow> bool" where
  "eidr_compressible s \<longleftrightarrow>
     length (FieldsFunc s eidr_separator) = 3
     \<and> Atoi (FieldsFunc s eidr_separator ! 1) \<noteq> None
     \<and> snd (hexDecodeString (filter (\<lambda>c. c \<noteq> 0x2D) (FieldsFunc s eidr_separator ! 2)))"


text \<open>
  A compact 12-byte EIDR whose third byte happens to be 0x2F, the code of the slash, followed
  by a byte above 0x7F.
\<close>

definition eidr_slash_byte :: "byte list" where
  "eidr_slash_byte = [0x14, 0x77, 0x2F, 0x80, 0xDC, 0xA5, 0x57, 0x79, 0x7E, 0x7E, 0xB5, 0x10]"

text \<open>
  A descriptor that is not cancelled, carries a sub-segment number and holds an MPU UPID
  whose format identifier is \<open>nil\<close>.
\<close>

definition mpu_without_format :: SegmentationDescriptor where
  "mpu_without_format =
     zeroSegmentationDescriptor
       \<lparr>SegmentationUPIDs :=
          [\<lparr>Type = 0x0C, FormatIdentifier = None, Format = str ''base-64'', Value = []\<rparr>],
        SubSegmentNum := Some 1\<rparr>"


section \<open>Transport stream demultiplexer (unnamed/part\_002, stream.go)\<close>

text \<open>
  A runtime panic of the source (an index or a slice bound out of range) is the result
  \<open>Panic\<close>. The two loops of the demultiplexer count in 16-bit arithmetic and need not
  terminate for every argument, so they are partial functions; not returning is \<open>None\<close>.
\<close>

datatype 'a result = Panic | Ok 'a

definition bind_result :: "'a result option \<Rightarrow> ('a \<Rightarrow> 'b result option) \<Rightarrow> 'b result option" where
  "bind_result m f = (case m of None \<Rightarrow> None | Some Panic \<Rightarrow> Some Panic | Some (Ok x) \<Rightarrow> f x)"

definition at :: "byte list \<Rightarrow> nat \<Rightarrow> byte result" where
  "at xs i = (if i < length xs then Ok (xs ! i) else Panic)"

definition packetSize :: nat where "packetSize = 188"

definition readSize :: nat where "readSize = 13000 * packetSize"

text \<open>
  \<^verbatim>\<open>Decode\<close> allocates one read buffer of \<open>readSize\<close> bytes and refills it with every
  \<^verbatim>\<open>file.Read\<close>. A packet is a slice of that buffer, its payload a slice of the packet, and
  these slices, not copies, are what the maps \<open>partial\<close> and \<open>last\<close> keep. So the state holds
  the buffer, and a slice is either a window of the buffer, given by offset and length, whose
  capacity reaches to the end of the buffer, or a slice of an array that \<^verbatim>\<open>append\<close> or
  \<^verbatim>\<open>[]byte("")\<close> allocated. Such an array is only ever referred to by the entry of one PID
  in \<open>partial\<close>, so it is represented by its bytes.

  \<open>decoded\<close> records, in order, the sections that \<open>parseScte35\<close> hands to
  \<^verbatim>\<open>SpliceInfoSection.Decode\<close> and prints, each with its PID and with the bytes it holds at
  that moment.
\<close>

datatype slice = InBuffer nat nat | Fresh "byte list"

record Stream = PIDs +
  pktNum :: nat
  programs :: "uint16 list"
  pidToProgram :: "uint16 \<rightharpoonup> uint16"
  programToPCR :: "uint16 \<rightharpoonup> uint64"
  programToPTS :: "uint16 \<rightharpoonup> uint64"
  partial :: "uint16 \<rightharpoonup> slice"
  last :: "uint16 \<rightharpoonup> slice"
  readBuffer :: "byte list"
  decoded :: "(uint16 \<times> byte list) list"

text \<open>The bytes a slice holds in a state, and its length.\<close>

definition sliceBytes :: "'a Stream_scheme \<Rightarrow> slice \<Rightarrow> byte list" where
  "sliceBytes st s =
     (case s of InBuffer off len \<Rightarrow> take len (drop off (readBuffer st)) | Fresh bs \<Rightarrow> bs)"

fun sliceLen :: "slice \<Rightarrow> nat" where
  "sliceLen (InBuffer off len) = len"
| "sliceLen (Fresh bs) = length bs"

text \<open>The slice expression \<^verbatim>\<open>s[k:]\<close> for \<open>k\<close> within the length of \<open>s\<close>.\<close>

fun sliceFrom :: "slice \<Rightarrow> nat \<Rightarrow> slice" where
  "sliceFrom (InBuffer off len) k = InBuffer (off + k) (len - k)"
| "sliceFrom (Fresh bs) k = Fresh (drop k bs)"

text \<open>
  \<^verbatim>\<open>append(val, pay...)\<close>. When \<open>val\<close> is a window of the read buffer and the bytes of
  \<open>pay\<close> fit between its end and the end of the buffer, they are copied there, over whatever
  the buffer holds at that place, and the result is the longer window. Otherwise the result
  is a newly allocated array.
\<close>

definition writeAt :: "byte list \<Rightarrow> nat \<Rightarrow> byte list \<Rightarrow> byte list" where
  "writeAt buf pos bs = take pos buf @ bs @ drop (pos + length bs) buf"

definition appendSlice :: "'a Stream_scheme \<Rightarrow> slice \<Rightarrow> slice \<Rightarrow> slice \<times> 'a Stream_scheme" where
  "appendSlice st val pay =
     (case val of
        InBuffer off len \<Rightarrow>
          (if off + len + sliceLen pay \<le> readSize then
             (InBuffer off (len + sliceLen pay),
              st\<lparr>readBuffer := writeAt (readBuffer st) (off + len) (sliceBytes st pay)\<rparr>)
           else (Fresh (sliceBytes st val @ sliceBytes st pay), st))
      | Fresh bs \<Rightarrow> (Fresh (bs @ sliceBytes st pay), st))"

definition parseLength :: "byte \<Rightarrow> byte \<Rightarrow> uint16" where
  "parseLength byte1 byte2 = push_bit 8 (ucast (byte1 AND 0xf)) OR ucast byte2"

definition parsePID :: "byte \<Rightarrow> byte \<Rightarrow> uint16" where
  "parsePID byte1 byte2 = push_bit 8 (ucast (byte1 AND 0x1f)) OR ucast byte2"

definition parseProgram :: "byte \<Rightarrow> byte \<Rightarrow> uint16" where
  "parseProgram byte1 byte2 = push_bit 8 (ucast byte1) OR ucast byte2"

text \<open>
  \<^verbatim>\<open>bytes.Index\<close>: the index of the first occurrence of \<open>sep\<close>. \<^verbatim>\<open>splitByIndex\<close> returns
  the payload from there on, or a new empty slice.
\<close>

fun indexOf :: "byte list \<Rightarrow> byte list \<Rightarrow> nat option" where
  "indexOf [] sep = (if sep = [] then Some 0 else None)"
| "indexOf (p # ps) sep =
     (if take (length sep) (p # ps) = sep then Some 0 else map_option Suc (indexOf ps sep))"

definition splitByIndex :: "'a Stream_scheme \<Rightarrow> slice \<Rightarrow> byte list \<Rightarrow> slice" where
  "splitByIndex st payload sep =
     (case indexOf (sliceBytes st payload) sep of
        None \<Rightarrow> Fresh []
      | Some idx \<Rightarrow> sliceFrom payload idx)"

definition parsePUSI :: "byte list \<Rightarrow> bool result" where
  "parsePUSI pkt =
     (case at pkt 1 of
        Panic \<Rightarrow> Panic
      | Ok b1 \<Rightarrow>
          (if drop_bit 6 b1 AND 1 = 1 then
             (case at pkt 6 of
                Panic \<Rightarrow> Panic
              | Ok b6 \<Rightarrow> Ok (b6 AND 1 = 1))
           else Ok False))"

definition ptsOf :: "byte \<Rightarrow> byte \<Rightarrow> byte \<Rightarrow> byte \<Rightarrow> byte \<Rightarrow> uint64" where
  "ptsOf b13 b14 b15 b16 b17 =
     push_bit 30 (drop_bit 1 (ucast b13) AND 7) OR push_bit 22 (ucast b14)
     OR push_bit 15 (drop_bit 1 (ucast b15)) OR push_bit 7 (ucast b16) OR drop_bit 1 (ucast b17)"

definition parsePTS :: "'a Stream_scheme \<Rightarrow> byte list \<Rightarrow> uint16 \<Rightarrow> 'a Stream_scheme result" where
  "parsePTS st pkt pid =
     (case parsePUSI pkt of
        Panic \<Rightarrow> Panic
      | Ok False \<Rightarrow> Ok st
      | Ok True \<Rightarrow>
          (case pidToProgram st pid of
             None \<Rightarrow> Ok st
           | Some prgm \<Rightarrow>
               (case (at pkt 13, at pkt 14, at pkt 15, at pkt 16, at pkt 17) of
                  (Ok b13, Ok b14, Ok b15, Ok b16, Ok b17) \<Rightarrow>
                    Ok (st\<lparr>programToPTS := (programToPTS st)(prgm \<mapsto> ptsOf b13 b14 b15 b16 b17)\<rparr>)
                | _ \<Rightarrow> Panic)))"

definition pcrOf :: "byte \<Rightarrow> byte \<Rightarrow> byte \<Rightarrow> byte \<Rightarrow> byte \<Rightarrow> uint64" where
  "pcrOf b6 b7 b8 b9 b10 =
     push_bit 25 (ucast b6) OR push_bit 17 (ucast b7) OR push_bit 9 (ucast b8)
     OR push_bit 1 (ucast b9) OR drop_bit 7 (ucast b10)"

text \<open>A PID without a program is looked up as program 0, the zero value of the map.\<close>

definition parsePCR :: "'a Stream_scheme \<Rightarrow> byte list \<Rightarrow> uint16 \<Rightarrow> 'a Stream_scheme result" where
  "parsePCR st pkt pid =
     (case at pkt 3 of
        Panic \<Rightarrow> Panic
      | Ok b3 \<Rightarrow>
          (if drop_bit 5 b3 AND 1 = 1 then
             (case at pkt 5 of
                Panic \<Rightarrow> Panic
              | Ok b5 \<Rightarrow>
                  (if drop_bit 4 b5 AND 1 = 1 then
                     (case (at pkt 6, at pkt 7, at pkt 8, at pkt 9, at pkt 10) of
                        (Ok b6, Ok b7, Ok b8, Ok b9, Ok b10) \<Rightarrow>
                          (let prgm = (case pidToProgram st pid of Some p \<Rightarrow> p | None \<Rightarrow> 0)
                           in Ok (st\<lparr>programToPCR := (programToPCR st)(prgm \<mapsto> pcrOf b6 b7 b8 b9 b10)\<rparr>))
                      | _ \<Rightarrow> Panic)
                   else Ok st))
           else Ok st))"

text \<open>
  The payload starts after the header and the adaptation field, if there is one; it is the
  slice \<^verbatim>\<open>pkt[head:]\<close> of the packet.
\<close>

definition parsePayload :: "'a Stream_scheme \<Rightarrow> slice \<Rightarrow> slice result" where
  "parsePayload st pkt =
     (case at (sliceBytes st pkt) 3 of
        Panic \<Rightarrow> Panic
      | Ok b3 \<Rightarrow>
          (case (if drop_bit 5 b3 AND 1 = 1
                 then (case at (sliceBytes st pkt) 4 of
                         Panic \<Rightarrow> Panic | Ok afl \<Rightarrow> Ok (4 + (unat afl + 1)))
                 else Ok 4) of
             Panic \<Rightarrow> Panic
           | Ok head0 \<Rightarrow>
               (let head = (if head0 > packetSize then packetSize else head0)
                in if head \<le> sliceLen pkt then Ok (sliceFrom pkt head) else Panic)))"

text \<open>
  \<^verbatim>\<open>checkPartial\<close> appends the payload to the partial section of the PID, if there is
  one, and cuts the result at the separator.
\<close>

definition checkPartial ::
  "'a Stream_scheme \<Rightarrow> slice \<Rightarrow> uint16 \<Rightarrow> byte list \<Rightarrow> slice \<times> 'a Stream_scheme" where
  "checkPartial st pay pid sep =
     (case partial st pid of
        Some val \<Rightarrow>
          (case appendSlice st val pay of (pay', st') \<Rightarrow> (splitByIndex st' pay' sep, st'))
      | None \<Rightarrow> (splitByIndex st pay sep, st))"

text \<open>
  \<^verbatim>\<open>sameAsLast\<close> compares the bytes of the payload with the bytes that the slice recorded
  for the PID holds now; unless they are equal it records the payload slice.
\<close>

definition sameAsLast :: "'a Stream_scheme \<Rightarrow> slice \<Rightarrow> uint16 \<Rightarrow> bool \<times> 'a Stream_scheme" where
  "sameAsLast st pay pid =
     (case last st pid of
        Some val \<Rightarrow>
          (if sliceBytes st pay = sliceBytes st val then (True, st)
           else (False, st\<lparr>last := (last st)(pid \<mapsto> pay)\<rparr>))
      | None \<Rightarrow> (False, st\<lparr>last := (last st)(pid \<mapsto> pay)\<rparr>))"

definition sectionDone :: "'a Stream_scheme \<Rightarrow> slice \<Rightarrow> uint16 \<Rightarrow> uint16 \<Rightarrow> bool \<times> 'a Stream_scheme" where
  "sectionDone st pay pid seclen =
     (if seclen + 3 > of_nat (sliceLen pay) then (False, st\<lparr>partial := (partial st)(pid \<mapsto> pay)\<rparr>)
      else (True, st\<lparr>partial := (partial st)(pid := None)\<rparr>))"

text \<open>The loop of \<open>parsePAT\<close> over the (program, PMT PID) pairs.\<close>

partial_function (option) patLoop ::
  "'a Stream_scheme \<Rightarrow> byte list \<Rightarrow> uint16 \<Rightarrow> uint16 \<Rightarrow> 'a Stream_scheme result option" where
  "patLoop st pay idx end' =
     (if idx < end' then
        (case (at pay (unat idx), at pay (unat (idx + 1))) of
           (Ok a, Ok b) \<Rightarrow>
             (let prgm = parseProgram a b in
              if prgm > 0 then
                (case (at pay (unat (idx + 2)), at pay (unat (idx + 3))) of
                   (Ok c, Ok d) \<Rightarrow>
                     patLoop
                       (addPMTPID
                          (if \<not> isIn16 (programs st) prgm then st\<lparr>programs := programs st @ [prgm]\<rparr>
                           else st)
                          (parsePID c d))
                       pay (idx + 4) end'
                 | _ \<Rightarrow> Some Panic)
              else patLoop st pay (idx + 4) end')
         | _ \<Rightarrow> Some Panic)
      else Some (Ok st))"

text \<open>
  The loops read the payload while nothing writes to the buffer, so they take its bytes.
\<close>

definition parsePAT :: "'a Stream_scheme \<Rightarrow> slice \<Rightarrow> uint16 \<Rightarrow> 'a Stream_scheme result option" where
  "parsePAT st pay0 pid =
     (case sameAsLast st pay0 pid of
        (True, st1) \<Rightarrow> Some (Ok st1)
      | (False, st1) \<Rightarrow>
          (case checkPartial st1 pay0 pid [0x00, 0x00] of
             (pay, st2) \<Rightarrow>
               if sliceLen pay < 1 then Some (Ok st2)
               else
                 (case (at (sliceBytes st2 pay) 2, at (sliceBytes st2 pay) 3) of
                    (Ok b2, Ok b3) \<Rightarrow>
                      (let seclen = parseLength b2 b3 in
                       case sectionDone st2 pay pid seclen of
                         (True, st3) \<Rightarrow> patLoop st3 (sliceBytes st2 pay) 9 (9 + (seclen - 5) - 4)
                       | (False, st3) \<Rightarrow> Some (Ok st3))
                  | _ \<Rightarrow> Some Panic)))"

definition verifyStreamType :: "'a Stream_scheme \<Rightarrow> uint16 \<Rightarrow> byte \<Rightarrow> 'a Stream_scheme" where
  "verifyStreamType st pid streamtype =
     (if streamtype = 6 \<or> streamtype = 134 then addSCTE35PID st pid else st)"

partial_function (option) parseStreams ::
  "'a Stream_scheme \<Rightarrow> byte list \<Rightarrow> uint16 \<Rightarrow> uint16 \<Rightarrow> uint16 \<Rightarrow> 'a Stream_scheme result option" where
  "parseStreams st pay idx endidx prgm =
     (if idx < endidx then
        (case (at pay (unat idx), at pay (unat (idx + 1)), at pay (unat (idx + 2)),
               at pay (unat (idx + 3)), at pay (unat (idx + 4))) of
           (Ok streamtype, Ok e1, Ok e2, Ok l1, Ok l2) \<Rightarrow>
             (let elpid = parsePID e1 e2; eilen = parseLength l1 l2 in
              parseStreams
                (verifyStreamType (st\<lparr>pidToProgram := (pidToProgram st)(elpid \<mapsto> prgm)\<rparr>) elpid streamtype)
                pay (idx + 5 + eilen) endidx prgm)
         | _ \<Rightarrow> Some Panic)
      else Some (Ok st))"

definition parsePMT :: "'a Stream_scheme \<Rightarrow> slice \<Rightarrow> uint16 \<Rightarrow> 'a Stream_scheme result option" where
  "parsePMT st pay0 pid =
     (case sameAsLast st pay0 pid of
        (True, st1) \<Rightarrow> Some (Ok st1)
      | (False, st1) \<Rightarrow>
          (case checkPartial st1 pay0 pid [0x02] of
             (pay, st2) \<Rightarrow>
               if sliceLen pay < 1 then Some (Ok st2)
               else
                 (let bs = sliceBytes st2 pay in
                  case (at bs 1, at bs 2) of
                    (Ok b1, Ok b2) \<Rightarrow>
                      (let secinfolen = parseLength b1 b2 in
                       case sectionDone st2 pay pid secinfolen of
                         (True, st3) \<Rightarrow>
                           (case (at bs 3, at bs 4, at bs 8, at bs 9, at bs 10, at bs 11) of
                              (Ok b3, Ok b4, Ok b8, Ok b9, Ok b10, Ok b11) \<Rightarrow>
                                (let prgm = parseProgram b3 b4;
                                     st4 = addPCRPID st3 (parsePID b8 b9);
                                     proginfolen = parseLength b10 b11;
                                     idx = 12 + proginfolen;
                                     silen = secinfolen - 9 - proginfolen
                                 in parseStreams st4 bs idx ((idx + silen) - 5) prgm)
                            | _ \<Rightarrow> Some Panic)
                       | (False, st3) \<Rightarrow> Some (Ok st3))
                  | _ \<Rightarrow> Some Panic)))"

text \<open>
  \<open>parseScte35\<close> reassembles a section that starts with the separator FC 30 and, once it
  is complete, hands it to the section decoder. It does not call \<open>sameAsLast\<close>.
\<close>

definition parseScte35 :: "'a Stream_scheme \<Rightarrow> slice \<Rightarrow> uint16 \<Rightarrow> 'a Stream_scheme result" where
  "parseScte35 st pay0 pid =
     (case checkPartial st pay0 pid [0xfc, 0x30] of
        (pay, st1) \<Rightarrow>
          if sliceLen pay = 0 then Ok (delSCTE35PID st1 pid)
          else
            (case (at (sliceBytes st1 pay) 1, at (sliceBytes st1 pay) 2) of
               (Ok b1, Ok b2) \<Rightarrow>
                 (case sectionDone st1 pay pid (parseLength b1 b2) of
                    (True, st2) \<Rightarrow> Ok (st2\<lparr>decoded := decoded st2 @ [(pid, sliceBytes st1 pay)]\<rparr>)
                  | (False, st2) \<Rightarrow> Ok st2)
             | _ \<Rightarrow> Panic))"

text \<open>
  \<open>parse\<close> dispatches one packet on its PID. The PID and the payload slice are taken
  first; \<open>parsePCR\<close> and \<open>parsePTS\<close> read the packet from the buffer as it is after
  \<open>parsePAT\<close> and \<open>parsePMT\<close> have run.
\<close>

definition parse :: "'a Stream_scheme \<Rightarrow> slice \<Rightarrow> 'a Stream_scheme result option" where
  "parse st pkt =
     (case (at (sliceBytes st pkt) 1, at (sliceBytes st pkt) 2) of
        (Ok p1, Ok p2) \<Rightarrow>
          (let pid = parsePID p1 p2 in
           case parsePayload st pkt of
             Panic \<Rightarrow> Some Panic
           | Ok pay \<Rightarrow>
               bind_result (if pid = 0 then parsePAT st pay pid else Some (Ok st)) (\<lambda>st1.
               bind_result (if isPMTPID st1 pid then parsePMT st1 pay pid else Some (Ok st1)) (\<lambda>st2.
               bind_result (Some (if isPCRPID st2 pid then parsePCR st2 (sliceBytes st2 pkt) pid
                                  else parsePTS st2 (sliceBytes st2 pkt) pid)) (\<lambda>st3.
               Some (if isSCTE35PID st3 pid then parseScte35 st3 pay pid else Ok st3)))))
      | _ \<Rightarrow> Some Panic)"

text \<open>
  \<^verbatim>\<open>Decode\<close> of a stream. Every \<^verbatim>\<open>file.Read\<close> overwrites the front of the one buffer
  with the bytes it delivers, at most \<open>readSize\<close> of them; then each complete 188-byte
  packet of these bytes is counted and parsed as a slice of the buffer. The file is given as
  the list of the byte sequences that the successive reads deliver.
\<close>

definition fileRead :: "'a Stream_scheme \<Rightarrow> byte list \<Rightarrow> 'a Stream_scheme" where
  "fileRead st bs =
     st\<lparr>readBuffer := take readSize bs @ drop (length (take readSize bs)) (readBuffer st)\<rparr>"

fun parsePackets :: "'a Stream_scheme \<Rightarrow> nat \<Rightarrow> nat \<Rightarrow> 'a Stream_scheme result option" where
  "parsePackets st i 0 = Some (Ok st)"
| "parsePackets st i (Suc n) =
     bind_result (parse (st\<lparr>pktNum := pktNum st + 1\<rparr>) (InBuffer (i * packetSize) packetSize))
       (\<lambda>st1. parsePackets st1 (i + 1) n)"

fun decodeReads :: "'a Stream_scheme \<Rightarrow> byte list list \<Rightarrow> 'a Stream_scheme result option" where
  "decodeReads st [] = Some (Ok st)"
| "decodeReads st (bs # rest) =
     bind_result (parsePackets (fileRead st bs) 0 (length (take readSize bs) div packetSize))
       (\<lambda>st1. decodeReads st1 rest)"

definition DecodeStream :: "'a Stream_scheme \<Rightarrow> byte list list \<Rightarrow> 'a Stream_scheme result option" where
  "DecodeStream st reads =
     decodeReads
       (st\<lparr>pidToProgram := Map.empty, last := Map.empty, partial := Map.empty,
           programToPCR := Map.empty, programToPTS := Map.empty, pktNum := 0,
           readBuffer := replicate readSize 0\<rparr>)
       reads"

definition newStream :: Stream where
  "newStream =
     \<lparr>PMTPIDs = [], PCRPIDs = [], SCTE35PIDs = [], pktNum = 0, programs = [],
      pidToProgram = Map.empty, programToPCR = Map.empty, programToPTS = Map.empty,
      partial = Map.empty, last = Map.empty, readBuffer = [], decoded = []\<rparr>"

subsection \<open>Example packets\<close>

text \<open>
  A transport packet on PID 0x0102 without adaptation field whose payload is the splice\_null
  heartbeat of seed scenario 2 followed by stuffing bytes, and a stream in which that PID has
  been announced as a SCTE-35 PID.
\<close>

definition heartbeat_payload :: "byte list" where
  "heartbeat_payload =
     [0xFC, 0x30, 0x11, 0x00, 0x00, 0x00, 0x00, 0x00, 0x00, 0x00, 0xFF, 0xF0, 0x00, 0x00, 0x00,
      0x00, 0x7A, 0x4F, 0xBF, 0xFF] @ replicate 164 0xFF"

definition heartbeat_packet :: "byte list" where
  "heartbeat_packet = [0x47, 0x01, 0x02, 0x10] @ heartbeat_payload"

definition scte35_stream :: Stream where
  "scte35_stream = newStream\<lparr>SCTE35PIDs := [0x0102]\<rparr>"

definition map_result :: "('a \<Rightarrow> 'b) \<Rightarrow> 'a result \<Rightarrow> 'b result" where
  "map_result f r = (case r of Panic \<Rightarrow> Panic | Ok x \<Rightarrow> Ok (f x))"

text \<open>
  The payload of a PAT packet: pointer field, table id 0, section length 13, one program
  (number 1) with PMT PID 0x0100, the CRC, and stuffing bytes; and the packet, on PID 0 with
  the payload unit start indicator set. The second pair announces program 2 with PMT PID
  0x0200.
\<close>

definition pat_payload :: "byte list" where
  "pat_payload =
     [0x00, 0x00, 0xB0, 0x0D, 0x00, 0x01, 0xC1, 0x00, 0x00, 0x00, 0x01, 0xE1, 0x00,
      0xE8, 0xF9, 0x5E, 0x7D] @ replicate 167 0xFF"

definition pat_packet :: "byte list" where
  "pat_packet = [0x47, 0x40, 0x00, 0x10] @ pat_payload"

definition pat_payload2 :: "byte list" where
  "pat_payload2 =
     [0x00, 0x00, 0xB0, 0x0D, 0x00, 0x01, 0xC1, 0x00, 0x00, 0x00, 0x02, 0xE2, 0x00,
      0x00, 0x00, 0x00, 0x00] @ replicate 167 0xFF"

definition pat_packet2 :: "byte list" where
  "pat_packet2 = [0x47, 0x40, 0x00, 0x10] @ pat_payload2"

text \<open>
  The stream after a read that has delivered the PAT packet twice, when the first packet has
  been counted, and the stream after that packet has been parsed. The third stream is
  \<open>scte35_stream\<close> after a read that has delivered the heartbeat packet twice.
\<close>

definition stream_before_pat :: Stream where
  "stream_before_pat =
     newStream\<lparr>pktNum := 1, readBuffer := pat_packet @ pat_packet @ replicate (readSize - 376) 0\<rparr>"

definition stream_after_pat :: Stream where
  "stream_after_pat =
     stream_before_pat\<lparr>PMTPIDs := [0x0100], programs := [1], last := [0 \<mapsto> InBuffer 4 184]\<rparr>"

definition scte35_stream_read :: Stream where
  "scte35_stream_read =
     scte35_stream\<lparr>pktNum := 1,
       readBuffer := heartbeat_packet @ heartbeat_packet @ replicate (readSize - 376) 0\<rparr>"

section \<open>Splice info section\<close>

subsection \<open>CRC\<close>

text \<open>
  Modelled from the spec: the MPEG-2 CRC-32 of section 4.2; the repository's CRC code is not
  among the source files. The register starts at 0xFFFFFFFF; the message is processed bit by
  bit, the most significant bit of each byte first, with the generator polynomial 0x04C11DB7
  of MPEG-2; nothing is reflected and there is no final XOR.
\<close>

definition crc_shift :: "uint32 \<Rightarrow> bool \<Rightarrow> uint32" where
  "crc_shift c b = (if bit c 31 \<noteq> b then push_bit 1 c XOR 0x04C11DB7 else push_bit 1 c)"

definition crc32 :: "byte list \<Rightarrow> uint32" where
  "crc32 bs = foldl crc_shift 0xFFFFFFFF (bits_of_bytes bs)"

text \<open>
  Modelled from the spec: the CRC check of section 4.2. The CRC is computed over all bytes
  up to, not including, the 4-byte trailer and compared with the trailer.
\<close>

definition verifyCRC32 :: "byte list \<Rightarrow> bool" where
  "verifyCRC32 b \<longleftrightarrow>
     crc32 (take (length b - 4) b) = of_nat (nat_of_bits (bits_of_bytes (drop (length b - 4) b)))"

subsection \<open>Codecs of commands and descriptors\<close>

text \<open>
  Modelled from the spec: the interface between the section layer and the codecs of the
  splice commands and splice descriptors (sections 4.3 and 4.4). Most of these codecs are not
  among the source files, so the section layer takes them as a parameter: the command decoder
  dispatches on \<open>splice_command_type\<close> and returns the value with its error; a command
  knows its type, its length in bytes and its binary form; the descriptor decoder turns the
  bytes of the descriptor loop into the list of descriptors, in wire order; a descriptor
  knows its binary form. An encoder result \<open>None\<close> stands for an encoder that fails.
\<close>

record ('c, 'd) codecs =
  decodeSpliceCommand :: "uint32 \<Rightarrow> byte list \<Rightarrow> 'c \<times> error option"
  commandType :: "'c \<Rightarrow> uint32"
  commandLength :: "'c \<Rightarrow> nat"
  encodeSpliceCommand :: "'c \<Rightarrow> byte list option"
  decodeSpliceDescriptors :: "byte list \<Rightarrow> 'd list \<times> error option"
  encodeSpliceDescriptor :: "'d \<Rightarrow> byte list option"

subsection \<open>The structured value\<close>

text \<open>
  Modelled from the spec: \<open>SpliceInfoSection\<close> of section 3; its declaration is not among
  the source files. The fields that always hold the same value (\<open>table_id\<close>,
  \<open>section_syntax_indicator\<close>, \<open>private_indicator\<close>, \<open>protocol_version\<close>) and the derived
  fields (\<open>section_length\<close>, \<open>splice_command_length\<close>, \<open>splice_command_type\<close>,
  \<open>descriptor_loop_length\<close>, \<open>CRC_32\<close>) are not stored. \<open>E_CRC_32\<close> is present for an
  encrypted packet only.
\<close>

record ('c, 'd) SpliceInfoSection =
  SAPType :: uint32
  EncryptedPacket :: bool
  EncryptionAlgorithm :: uint32
  PTSAdjustment :: uint64
  CWIndex :: uint32
  Tier :: uint32
  SpliceCommand :: 'c
  SpliceDescriptors :: "'d list"
  ECRC32 :: "uint32 option"

subsection \<open>Decode\<close>

text \<open>
  Modelled from the spec: the header of the section as section 3 lays it out and section 4.6
  reads it: \<open>table_id\<close> (8 bits), \<open>section_syntax_indicator\<close> (1), \<open>private_indicator\<close>
  (1), \<open>sap_type\<close> (2), \<open>section_length\<close> (12), \<open>protocol_version\<close> (8),
  \<open>encrypted_packet\<close> (1), \<open>encryption_algorithm\<close> (6), \<open>pts_adjustment\<close> (33),
  \<open>cw_index\<close> (8), \<open>tier\<close> (12), \<open>splice_command_length\<close> (12),
  \<open>splice_command_type\<close> (8). The constant fields are skipped.
\<close>

record SectionHeader =
  sap_type :: uint32
  section_length :: uint32
  encrypted_packet :: bool
  encryption_algorithm :: uint32
  pts_adjustment :: uint64
  cw_index :: uint32
  tier :: uint32
  splice_command_length :: uint32
  splice_command_type :: uint32

definition decodeHeader :: "Reader \<Rightarrow> SectionHeader \<times> Reader" where
  "decodeHeader r =
     (case Uint32 2 (Skip 1 (Skip 1 (Skip 8 r))) of (sap, r1) \<Rightarrow>
      case Uint32 12 r1 of (sl, r2) \<Rightarrow>
      case Bit (Skip 8 r2) of (enc, r3) \<Rightarrow>
      case Uint32 6 r3 of (alg, r4) \<Rightarrow>
      case Uint64 33 r4 of (pts, r5) \<Rightarrow>
      case Uint32 8 r5 of (cw, r6) \<Rightarrow>
      case Uint32 12 r6 of (tr, r7) \<Rightarrow>
      case Uint32 12 r7 of (scl, r8) \<Rightarrow>
      case Uint32 8 r8 of (sct, r9) \<Rightarrow>
        (\<lparr>sap_type = sap, section_length = sl, encrypted_packet = enc,
          encryption_algorithm = alg, pts_adjustment = pts, cw_index = cw, tier = tr,
          splice_command_length = scl, splice_command_type = sct\<rparr>, r9))"

text \<open>
  Modelled from the spec: the command of section 4.6. The decoder dispatches on
  \<open>splice_command_type\<close> and hands the command \<open>splice_command_length\<close> bytes. A legacy
  \<open>splice_command_length\<close> of 0xFFF is accepted: the command decoder then sees the rest of
  the section, its complaint about trailing bytes is dropped, and the length consumed is the
  length of the decoded command.
\<close>

definition decodeCommand ::
  "('c, 'd) codecs \<Rightarrow> SectionHeader \<Rightarrow> Reader \<Rightarrow> 'c \<times> error option \<times> nat \<times> Reader" where
  "decodeCommand cs h r =
     (if splice_command_length h = 0xFFF then
        (case decodeSpliceCommand cs (splice_command_type h) (LeftBytes r) of
           (c, e) \<Rightarrow>
             (c, (if e = Some ErrBufferUnderflow then None else e), commandLength cs c,
              Skip (8 * commandLength cs c) r))
      else
        (case Bytes (unat (splice_command_length h)) r of
           (b, r1) \<Rightarrow>
             (case decodeSpliceCommand cs (splice_command_type h) b of
                (c, e) \<Rightarrow> (c, e, unat (splice_command_length h), r1))))"

text \<open>
  Modelled from the spec: the descriptor loop of section 4.6, \<open>descriptor_loop_length\<close>
  (16 bits) followed by that many bytes of descriptors.
\<close>

definition decodeDescriptorLoop ::
  "('c, 'd) codecs \<Rightarrow> Reader \<Rightarrow> 'd list \<times> error option \<times> nat \<times> Reader" where
  "decodeDescriptorLoop cs r =
     (case Uint32 16 r of
        (dll, r1) \<Rightarrow>
          (case Bytes (unat dll) r1 of
             (b, r2) \<Rightarrow>
               (case decodeSpliceDescriptors cs b of (ds, e) \<Rightarrow> (ds, e, unat dll, r2))))"

text \<open>
  Modelled from the spec: the number of \<open>alignment_stuffing\<close> bytes of section 4.6, the
  difference between \<open>section_length\<close> and the sum of the preceding lengths (11 bytes of
  header behind \<open>section_length\<close>, the command, 2 bytes of \<open>descriptor_loop_length\<close>, the
  descriptors) plus the CRC fields.
\<close>

definition stuffing :: "SectionHeader \<Rightarrow> nat \<Rightarrow> nat \<Rightarrow> nat" where
  "stuffing h clen dlen =
     unat (section_length h)
       - (11 + clen + 2 + dlen + (if encrypted_packet h then 8 else 4))"

text \<open>
  Modelled from the spec: the end of the section (section 4.6): the stuffing is consumed,
  \<open>E_CRC_32\<close> is read when the packet is encrypted, then \<open>CRC_32\<close>.
\<close>

definition decodeTrailer :: "SectionHeader \<Rightarrow> nat \<Rightarrow> Reader \<Rightarrow> uint32 option \<times> Reader" where
  "decodeTrailer h n r =
     (if encrypted_packet h then
        (case Uint32 32 (Skip (8 * n) r) of
           (ecrc, r1) \<Rightarrow> (Some ecrc, snd (Uint32 32 r1)))
      else (None, snd (Uint32 32 (Skip (8 * n) r))))"

definition first_error :: "error option list \<Rightarrow> error option" where
  "first_error es = (case filter (\<lambda>e. e \<noteq> None) es of [] \<Rightarrow> None | e # _ \<Rightarrow> e)"

text \<open>
  Modelled from the spec: the structural part of \<open>SpliceInfoSection.Decode\<close> (section 4.6),
  which is not among the source files: header, command, descriptor loop, stuffing and CRC
  fields, and the final check of the reader. The value returned is populated with what was
  read, also when an error is reported (section 7); the error is the first one met.
\<close>

definition decodeSection ::
  "('c, 'd) codecs \<Rightarrow> byte list \<Rightarrow> ('c, 'd) SpliceInfoSection \<times> error option" where
  "decodeSection cs b =
     (case decodeHeader (NewReader b) of (h, r1) \<Rightarrow>
      case decodeCommand cs h r1 of (c, cerr, clen, r2) \<Rightarrow>
      case decodeDescriptorLoop cs r2 of (ds, derr, dlen, r3) \<Rightarrow>
      case decodeTrailer h (stuffing h clen dlen) r3 of (ecrc, r4) \<Rightarrow>
        (\<lparr>SAPType = sap_type h, EncryptedPacket = encrypted_packet h,
          EncryptionAlgorithm = encryption_algorithm h, PTSAdjustment = pts_adjustment h,
          CWIndex = cw_index h, Tier = tier h, SpliceCommand = c, SpliceDescriptors = ds,
          ECRC32 = ecrc\<rparr>,
         first_error [cerr, derr, readerError r4]))"

text \<open>
  Modelled from the spec: \<open>SpliceInfoSection.Decode\<close> with the validation of section 4.2: a
  section whose structure was read without error and whose CRC does not match the trailer
  yields \<open>ErrCRC32Invalid\<close>, and the populated value is returned all the same.
\<close>

definition Decode ::
  "('c, 'd) codecs \<Rightarrow> byte list \<Rightarrow> ('c, 'd) SpliceInfoSection \<times> error option" where
  "Decode cs b =
     (case decodeSection cs b of
        (sis, Some e) \<Rightarrow> (sis, Some e)
      | (sis, None) \<Rightarrow> (sis, if verifyCRC32 b then None else Some ErrCRC32Invalid))"

text \<open>
  Modelled from the spec: \<open>DecodeBase64\<close> and \<open>DecodeHex\<close> (section 4.7), which are not
  among the source files. Base64 is the standard alphabet with padding; hex accepts an
  optional prefix \<open>0x\<close> and both cases. Text that is not valid base64 or hex yields
  \<open>ErrUnsupportedEncoding\<close> and no structured value.
\<close>

definition DecodeBase64 ::
  "('c, 'd) codecs \<Rightarrow> byte list \<Rightarrow> ('c, 'd) SpliceInfoSection option \<times> error option" where
  "DecodeBase64 cs s =
     (case DecodeString s of
        (b, True) \<Rightarrow> (case Decode cs b of (sis, e) \<Rightarrow> (Some sis, e))
      | (b, False) \<Rightarrow> (None, Some ErrUnsupportedEncoding))"

definition DecodeHex ::
  "('c, 'd) codecs \<Rightarrow> byte list \<Rightarrow> ('c, 'd) SpliceInfoSection option \<times> error option" where
  "DecodeHex cs s =
     (case hexDecodeString (if take 2 s = str ''0x'' then drop 2 s else s) of
        (b, True) \<Rightarrow> (case Decode cs b of (sis, e) \<Rightarrow> (Some sis, e))
      | (b, False) \<Rightarrow> (None, Some ErrUnsupportedEncoding))"

subsection \<open>Encode\<close>

text \<open>
  Modelled from the spec: \<open>SpliceInfoSection.Encode\<close> (section 4.6), which is not among the
  source files. The length of each substructure is computed first; the header is written
  with the accurate \<open>section_length\<close>, \<open>splice_command_length\<close> and
  \<open>descriptor_loop_length\<close> and with the constant fields of section 3 (\<open>table_id\<close> 0xFC,
  both indicators false, \<open>protocol_version\<close> 0); no alignment stuffing is appended; the
  CRC computed over everything before it is appended. The result is \<open>None\<close> when the
  encoder of the command or of a descriptor fails.
\<close>

definition encodeDescriptors :: "('c, 'd) codecs \<Rightarrow> 'd list \<Rightarrow> byte list option" where
  "encodeDescriptors cs ds = map_option concat (those (map (encodeSpliceDescriptor cs) ds))"

definition encodeBody ::
  "('c, 'd) SpliceInfoSection \<Rightarrow> uint32 \<Rightarrow> byte list \<Rightarrow> byte list \<Rightarrow> byte list" where
  "encodeBody sis ct cb db =
     (let crcs = (if EncryptedPacket sis then 8 else 4);
          sl = 11 + length cb + 2 + length db + crcs;
          iow = NewWriter (3 + sl - 4);
          iow = PutUint32 8 0xFC iow;
          iow = PutBit False iow;
          iow = PutBit False iow;
          iow = PutUint32 2 (SAPType sis) iow;
          iow = PutUint32 12 (of_nat sl) iow;
          iow = PutUint32 8 0 iow;
          iow = PutBit (EncryptedPacket sis) iow;
          iow = PutUint32 6 (EncryptionAlgorithm sis) iow;
          iow = PutUint64 33 (PTSAdjustment sis) iow;
          iow = PutUint32 8 (CWIndex sis) iow;
          iow = PutUint32 12 (Tier sis) iow;
          iow = PutUint32 12 (of_nat (length cb)) iow;
          iow = PutUint32 8 ct iow;
          iow = Write cb iow;
          iow = PutUint32 16 (of_nat (length db)) iow;
          iow = Write db iow;
          iow = (if EncryptedPacket sis
                 then PutUint32 32 (case ECRC32 sis of Some v \<Rightarrow> v | None \<Rightarrow> 0) iow
                 else iow)
      in buffer iow)"

definition Encode :: "('c, 'd) codecs \<Rightarrow> ('c, 'd) SpliceInfoSection \<Rightarrow> byte list option" where
  "Encode cs sis =
     (case encodeSpliceCommand cs (SpliceCommand sis) of
        None \<Rightarrow> None
      | Some cb \<Rightarrow>
          (case encodeDescriptors cs (SpliceDescriptors sis) of
             None \<Rightarrow> None
           | Some db \<Rightarrow>
               (let body = encodeBody sis (commandType cs (SpliceCommand sis)) cb db
                in Some (body @ be32 (crc32 body)))))"

text \<open>
  Modelled from the spec: \<open>Base64\<close> and \<open>Hex\<close> (section 4.7): the encoded section in
  standard base64 with padding, and in upper-case hex.
\<close>

definition Base64 :: "('c, 'd) codecs \<Rightarrow> ('c, 'd) SpliceInfoSection \<Rightarrow> byte list option" where
  "Base64 cs sis = map_option EncodeToString (Encode cs sis)"

definition Hex :: "('c, 'd) codecs \<Rightarrow> ('c, 'd) SpliceInfoSection \<Rightarrow> byte list option" where
  "Hex cs sis = map_option hex_upper (Encode cs sis)"

subsection \<open>Fields of a section on the wire\<close>

text \<open>
  The bytes of a section by position: 14 bytes of header, the command, two bytes of
  \<open>descriptor_loop_length\<close>, the descriptors.
\<close>

definition wire_bits :: "byte list \<Rightarrow> nat \<Rightarrow> nat \<Rightarrow> nat" where
  "wire_bits b pos n = nat_of_bits (take n (drop pos (bits_of_bytes b)))"

definition wire_command_length :: "byte list \<Rightarrow> nat" where
  "wire_command_length b = wire_bits b 92 12"

definition wire_command_type :: "byte list \<Rightarrow> nat" where
  "wire_command_type b = wire_bits b 104 8"

definition wire_command :: "byte list \<Rightarrow> byte list" where
  "wire_command b = take (wire_command_length b) (drop 14 b)"

definition wire_loop_length :: "byte list \<Rightarrow> nat" where
  "wire_loop_length b = wire_bits b (8 * (14 + wire_command_length b)) 16"

definition wire_descriptors :: "byte list \<Rightarrow> byte list" where
  "wire_descriptors b = take (wire_loop_length b) (drop (14 + wire_command_length b + 2) b)"

definition wire_encrypted :: "byte list \<Rightarrow> bool" where
  "wire_encrypted b \<longleftrightarrow> wire_bits b 32 1 = 1"

definition wire_section_length :: "byte list \<Rightarrow> nat" where
  "wire_section_length b = wire_bits b 12 12"

definition wire_lengths :: "byte list \<Rightarrow> nat" where
  "wire_lengths b =
     11 + wire_command_length b + 2 + wire_loop_length b + (if wire_encrypted b then 8 else 4)"

definition wire_stuffing :: "byte list \<Rightarrow> nat" where
  "wire_stuffing b = wire_section_length b - wire_lengths b"

text \<open>
  A section without alignment stuffing whose \<open>section_length\<close> is accurate.
\<close>

definition no_stuffing :: "byte list \<Rightarrow> bool" where
  "no_stuffing b \<longleftrightarrow> wire_section_length b = wire_lengths b"

text \<open>
  The constant fields of the header hold their prescribed values: \<open>table_id\<close> 0xFC, both
  indicators 0, \<open>protocol_version\<close> 0.
\<close>

definition canonical_header :: "byte list \<Rightarrow> bool" where
  "canonical_header b \<longleftrightarrow>
     wire_bits b 0 8 = 0xFC \<and> wire_bits b 8 2 = 0 \<and> wire_bits b 24 8 = 0"

text \<open>The header and the value that a section holds, field by field.\<close>

definition wire_header :: "byte list \<Rightarrow> SectionHeader" where
  "wire_header b =
     \<lparr>sap_type = of_nat (wire_bits b 10 2), section_length = of_nat (wire_section_length b),
      encrypted_packet = wire_encrypted b, encryption_algorithm = of_nat (wire_bits b 33 6),
      pts_adjustment = of_nat (wire_bits b 39 33), cw_index = of_nat (wire_bits b 72 8),
      tier = of_nat (wire_bits b 80 12),
      splice_command_length = of_nat (wire_command_length b),
      splice_command_type = of_nat (wire_command_type b)\<rparr>"

definition wire_ecrc :: "byte list \<Rightarrow> uint32 option" where
  "wire_ecrc b =
     (if wire_encrypted b then Some (of_nat (wire_bits b (8 * (length b - 8)) 32)) else None)"

definition wire_value :: "('c, 'd) codecs \<Rightarrow> byte list \<Rightarrow> ('c, 'd) SpliceInfoSection" where
  "wire_value cs b =
     \<lparr>SAPType = of_nat (wire_bits b 10 2), EncryptedPacket = wire_encrypted b,
      EncryptionAlgorithm = of_nat (wire_bits b 33 6),
      PTSAdjustment = of_nat (wire_bits b 39 33), CWIndex = of_nat (wire_bits b 72 8),
      Tier = of_nat (wire_bits b 80 12),
      SpliceCommand = fst (decodeSpliceCommand cs (of_nat (wire_command_type b)) (wire_command b)),
      SpliceDescriptors = fst (decodeSpliceDescriptors cs (wire_descriptors b)),
      ECRC32 = wire_ecrc b\<rparr>"

text \<open>
  A section is well formed when it is exactly as long as its length fields say and the
  codecs accept its command and its descriptors.
\<close>

definition well_formed :: "('c, 'd) codecs \<Rightarrow> byte list \<Rightarrow> bool" where
  "well_formed cs b \<longleftrightarrow>
     length b = 3 + wire_lengths b + wire_stuffing b
     \<and> snd (decodeSpliceCommand cs (of_nat (wire_command_type b)) (wire_command b)) = None
     \<and> snd (decodeSpliceDescriptors cs (wire_descriptors b)) = None"

text \<open>The state of the reader after \<open>k\<close> bits of \<open>b\<close>, and after an overflow.\<close>

definition reader_at :: "byte list \<Rightarrow> nat \<Rightarrow> Reader" where
  "reader_at b k = \<lparr>unread = drop k (bits_of_bytes b), overflow = False\<rparr>"

definition reader_failed :: Reader where
  "reader_failed = \<lparr>unread = [], overflow = True\<rparr>"

text \<open>The section with its trailer replaced by the CRC of the bytes before it.\<close>

definition repair_crc :: "byte list \<Rightarrow> byte list" where
  "repair_crc b = take (length b - 4) b @ be32 (crc32 (take (length b - 4) b))"

definition reader_at_byte :: "byte list \<Rightarrow> nat \<Rightarrow> Reader" where
  "reader_at_byte b j = reader_at b (8 * j)"

subsection \<open>An instance of the codecs\<close>

text \<open>
  Modelled from the spec: the commands \<open>splice_null\<close> (type 0x00, no payload) and
  \<open>time_signal\<close> (type 0x06, a single \<open>SpliceTime\<close>) of section 3; their codecs are not
  among the source files. A \<open>SpliceTime\<close> without a time is a marker bit and 7 reserved
  bits, one with a time is a marker bit, 6 reserved bits and the 33-bit \<open>pts_time\<close>. Like the
  decoders among the sources, a command decoder ends with the final check of its reader.
  A command of any other type is kept in this instance as its type and its bytes.
\<close>

datatype SpliceCommand = SpliceNull | TimeSignal "uint64 option" | OtherCommand uint32 "byte list"

definition decodeTimeSignal :: "byte list \<Rightarrow> SpliceCommand \<times> error option" where
  "decodeTimeSignal b =
     (case Bit (NewReader b) of
        (timeSpecifiedFlag, r1) \<Rightarrow>
          (if timeSpecifiedFlag then
             (case Uint64 33 (Skip 6 r1) of
                (ptsTime, r2) \<Rightarrow> (TimeSignal (Some ptsTime), readerError r2))
           else (TimeSignal None, readerError (Skip 7 r1))))"

definition decodeSpliceCommand_basic :: "uint32 \<Rightarrow> byte list \<Rightarrow> SpliceCommand \<times> error option" where
  "decodeSpliceCommand_basic t b =
     (if t = 0x00 then (SpliceNull, readerError (NewReader b))
      else if t = 0x06 then decodeTimeSignal b
      else (OtherCommand t b, None))"

fun commandType_basic :: "SpliceCommand \<Rightarrow> uint32" where
  "commandType_basic SpliceNull = 0x00"
| "commandType_basic (TimeSignal t) = 0x06"
| "commandType_basic (OtherCommand t b) = t"

fun commandLength_basic :: "SpliceCommand \<Rightarrow> nat" where
  "commandLength_basic SpliceNull = 0"
| "commandLength_basic (TimeSignal None) = 1"
| "commandLength_basic (TimeSignal (Some t)) = 5"
| "commandLength_basic (OtherCommand t b) = length b"

fun encodeSpliceCommand_basic :: "uint32 \<Rightarrow> SpliceCommand \<Rightarrow> byte list option" where
  "encodeSpliceCommand_basic rsv SpliceNull = Some []"
| "encodeSpliceCommand_basic rsv (TimeSignal None) =
     Some (buffer (PutUint32 7 rsv (PutBit False (NewWriter 1))))"
| "encodeSpliceCommand_basic rsv (TimeSignal (Some t)) =
     Some (buffer (PutUint64 33 t (PutUint32 6 rsv (PutBit True (NewWriter 5)))))"
| "encodeSpliceCommand_basic rsv (OtherCommand t b) = Some b"

text \<open>
  Modelled from the spec: the descriptor loop of section 4.4. Each descriptor starts with
  its tag, its length and a 4-byte identifier. With the identifier \<open>CUEI\<close> and the tag 0x02
  the descriptor is a segmentation descriptor and is decoded and encoded by the source's
  \<open>decode\<close> and \<open>encode\<close>, which take and return the whole descriptor from its tag on. Any
  other descriptor is kept in this instance as its bytes. A descriptor that does not fit
  into the loop is a buffer overflow.
\<close>

datatype SpliceDescriptor = Segmentation SegmentationDescriptor | OtherDescriptor "byte list"

definition decodeSpliceDescriptor :: "byte list \<Rightarrow> SpliceDescriptor \<times> error option" where
  "decodeSpliceDescriptor d =
     (if 6 \<le> length d \<and> d ! 0 = 0x02 \<and> take 4 (drop 2 d) = [0x43, 0x55, 0x45, 0x49] then
        (case decode zeroSegmentationDescriptor d of (sd, e) \<Rightarrow> (Segmentation sd, e))
      else (OtherDescriptor d, None))"

function decodeSpliceDescriptors_basic :: "byte list \<Rightarrow> SpliceDescriptor list \<times> error option" where
  "decodeSpliceDescriptors_basic b =
     (if b = [] then ([], None)
      else if length b < 2 \<or> length b < 2 + unat (b ! 1) then ([], Some ErrBufferOverflow)
      else
        (case decodeSpliceDescriptor (take (2 + unat (b ! 1)) b) of
           (d, Some e) \<Rightarrow> ([d], Some e)
         | (d, None) \<Rightarrow>
             (case decodeSpliceDescriptors_basic (drop (2 + unat (b ! 1)) b) of
                (ds, e) \<Rightarrow> (d # ds, e))))"
  by pat_completeness auto
termination
  by (relation "measure length") auto

declare decodeSpliceDescriptors_basic.simps [simp del]

fun encodeSpliceDescriptor_basic :: "uint32 \<Rightarrow> SpliceDescriptor \<Rightarrow> byte list option" where
  "encodeSpliceDescriptor_basic rsv (Segmentation sd) =
     (case encode rsv sd of Some (b, None) \<Rightarrow> Some b | _ \<Rightarrow> None)"
| "encodeSpliceDescriptor_basic rsv (OtherDescriptor d) = Some d"

text \<open>The instance; \<open>rsv\<close> is the constant \<open>Reserved\<close> of the encoders.\<close>

definition basic_codecs :: "uint32 \<Rightarrow> (SpliceCommand, SpliceDescriptor) codecs" where
  "basic_codecs rsv =
     \<lparr>decodeSpliceCommand = decodeSpliceCommand_basic,
      commandType = commandType_basic,
      commandLength = commandLength_basic,
      encodeSpliceCommand = encodeSpliceCommand_basic rsv,
      decodeSpliceDescriptors = decodeSpliceDescriptors_basic,
      encodeSpliceDescriptor = encodeSpliceDescriptor_basic rsv\<rparr>"

subsection \<open>Example sections\<close>

text \<open>
  Seed scenario 1 of the spec, the test vector ``Time Signal - Placement Opportunity End'':
  a \<open>time_signal\<close> with a segmentation descriptor whose UPID is a TI of 8 bytes.
\<close>

definition time_signal_section :: "byte list" where
  "time_signal_section =
     [0xFC, 0x30, 0x2F, 0x00, 0x00, 0x00, 0x00, 0x00, 0x00, 0xFF, 0xFF, 0xF0, 0x05, 0x06, 0xFE,
      0x74, 0x62, 0x90, 0xA0, 0x00, 0x19, 0x02, 0x17, 0x43, 0x55, 0x45, 0x49, 0x48, 0x00, 0x00,
      0x8E, 0x7F, 0x9F, 0x08, 0x08, 0x00, 0x00, 0x00, 0x00, 0x2C, 0xA0, 0xA1, 0x8A, 0x35, 0x02,
      0x00, 0xA9, 0xCC, 0x67, 0x58]"

text \<open>
  The same signal with the TI sent in 4 bytes: the descriptor length, the loop length and
  the section length are 4 less, and the CRC is the one of these bytes.
\<close>

definition short_ti_section :: "byte list" where
  "short_ti_section =
     [0xFC, 0x30, 0x2B, 0x00, 0x00, 0x00, 0x00, 0x00, 0x00, 0xFF, 0xFF, 0xF0, 0x05, 0x06, 0xFE,
      0x74, 0x62, 0x90, 0xA0, 0x00, 0x15, 0x02, 0x13, 0x43, 0x55, 0x45, 0x49, 0x48, 0x00, 0x00,
      0x8E, 0x7F, 0x9F, 0x08, 0x04, 0x2C, 0xA0, 0xA1, 0x8A, 0x35, 0x02, 0x00, 0xD5, 0x49, 0x09,
      0x70]"

text \<open>
  The test vector ``Invalid CRC\_32'' (seed scenario 3): a \<open>splice_insert\<close> with a
  segmentation descriptor; the CRC of the section is 0xA7983B73, its trailer says 0xA7983B74.
\<close>

definition invalid_crc_section :: "byte list" where
  "invalid_crc_section =
     [0xFC, 0x30, 0x38, 0x00, 0x00, 0x00, 0x00, 0x00, 0x00, 0x00, 0xFF, 0xF0, 0x14, 0x05, 0x00,
      0x04, 0x31, 0x00, 0x7F, 0xEF, 0xFF, 0x99, 0x61, 0x21, 0xCC, 0xFE, 0x00, 0xCD, 0xFE, 0x60,
      0x01, 0x00, 0x00, 0x00, 0x00, 0x13, 0x02, 0x11, 0x43, 0x55, 0x45, 0x49, 0x00, 0x00, 0x00,
      0x01, 0x7F, 0xBF, 0x01, 0x02, 0x30, 0x34, 0x01, 0x00, 0x00, 0xA7, 0x98, 0x3B, 0x74]"

definition invalid_crc_base64 :: "byte list" where
  "invalid_crc_base64 =
     str ''/DA4AAAAAAAAAP/wFAUABDEAf+//mWEhzP4Azf5gAQAAAAATAhFDVUVJAAAAAX+/AQIwNAEAAKeYO3Q=''"

text \<open>The value that the section of the test vector ``Invalid CRC\_32'' holds.\<close>

definition invalid_crc_value :: "(SpliceCommand, SpliceDescriptor) SpliceInfoSection" where
  "invalid_crc_value =
     \<lparr>SAPType = 3, EncryptedPacket = False, EncryptionAlgorithm = 0, PTSAdjustment = 0,
      CWIndex = 0, Tier = 0xFFF,
      SpliceCommand =
        OtherCommand 0x05
          [0x00, 0x04, 0x31, 0x00, 0x7F, 0xEF, 0xFF, 0x99, 0x61, 0x21, 0xCC, 0xFE, 0x00, 0xCD,
           0xFE, 0x60, 0x01, 0x00, 0x00, 0x00],
      SpliceDescriptors =
        [Segmentation
           (zeroSegmentationDescriptor
              \<lparr>SegmentationUPIDs :=
                 [\<lparr>Type = 1, FormatIdentifier = None, Format = str ''text'', Value = str ''04''\<rparr>],
               SegmentationEventID := 1, SegmentationTypeID := 0x01\<rparr>)],
      ECRC32 = None\<rparr>"

definition invalid_crc_hex :: "byte list" where
  "invalid_crc_hex =
     str ''0xFC303800000000000000FFF01405000431007FEFFF996121CCFE00CDFE60''
     @ str ''010000000013021143554549000000017FBF01023034010000A7983B74''"


section \<open>Verification\<close>

subsection \<open>Properties of the PID collections\<close>

lemma isIn16_set: "isIn16 xs v \<longleftrightarrow> v \<in> set xs"
  by (induction xs) auto

lemma delLoop_filter:
  "n \<le> i \<Longrightarrow> i \<le> length arr \<Longrightarrow> delLoop pid arr n i (length arr) = (arr', n') \<Longrightarrow>
   length arr' = length arr \<and> n' \<le> length arr \<and>
   take n' arr' = take n arr @ filter (\<lambda>v. v \<noteq> pid) (drop i arr)"
proof (induction pid arr n i "length arr" arbitrary: arr' n' rule: delLoop.induct)
  case (1 pid arr n i)
  show ?case
  proof (cases "i < length arr")
    case False
    with "1.prems" show ?thesis by (simp add: delLoop.simps)
  next
    case True
    then have dropi: "drop i arr = arr ! i # drop (Suc i) arr"
      by (simp add: Cons_nth_drop_Suc)
    show ?thesis
    proof (cases "arr ! i \<noteq> pid")
      case keep: True
      let ?arr = "arr[n := arr ! i]"
      from "1.prems" True keep
      have run: "delLoop pid ?arr (Suc n) (Suc i) (length ?arr) = (arr', n')"
        by (simp add: Let_def delLoop.simps)
      have "length arr' = length ?arr \<and> n' \<le> length ?arr \<and>
            take n' arr' = take (Suc n) ?arr @ filter (\<lambda>v. v \<noteq> pid) (drop (Suc i) ?arr)"
        using "1.hyps"(1) [OF True refl keep _ _ _ run] "1.prems" True by simp
      moreover have "take (Suc n) ?arr = take n arr @ [arr ! i]"
        using "1.prems" True by (simp add: take_Suc_conv_app_nth)
      moreover have "drop (Suc i) ?arr = drop (Suc i) arr"
        using "1.prems" by simp
      ultimately show ?thesis using keep dropi by simp
    next
      case drop: False
      from "1.prems" True drop
      have run: "delLoop pid arr n (Suc i) (length arr) = (arr', n')"
        by (simp add: Let_def delLoop.simps)
      have "length arr' = length arr \<and> n' \<le> length arr \<and>
            take n' arr' = take n arr @ filter (\<lambda>v. v \<noteq> pid) (drop (Suc i) arr)"
        using "1.hyps"(2) [OF True refl _ _ _ run] drop "1.prems" True by simp
      then show ?thesis using drop dropi by simp
    qed
  qed
qed

lemma SCTE35PIDs_del:
  "SCTE35PIDs (delSCTE35PID p pid) = filter (\<lambda>v. v \<noteq> pid) (SCTE35PIDs p)"
proof -
  obtain arr n where run: "delLoop pid (SCTE35PIDs p) 0 0 (length (SCTE35PIDs p)) = (arr, n)"
    by (cases "delLoop pid (SCTE35PIDs p) 0 0 (length (SCTE35PIDs p))")
  from delLoop_filter [OF _ _ run] have "take n arr = filter (\<lambda>v. v \<noteq> pid) (SCTE35PIDs p)"
    by simp
  with run show ?thesis by (simp add: delSCTE35PID_def)
qed

lemma del_other_fields:
  "PMTPIDs (delSCTE35PID p pid) = PMTPIDs p" "PCRPIDs (delSCTE35PID p pid) = PCRPIDs p"
  by (simp_all add: delSCTE35PID_def split: prod.splits)

lemma apply_pid_op_distinct: "pids_distinct p \<Longrightarrow> pids_distinct (apply_pid_op p opn)"
  by (cases opn)
     (auto simp: pids_distinct_def addPMTPID_def addPCRPID_def addSCTE35PID_def
                 isPMTPID_def isPCRPID_def isSCTE35PID_def isIn16_set
                 SCTE35PIDs_del del_other_fields)

lemma foldl_pid_ops_distinct: "pids_distinct p \<Longrightarrow> pids_distinct (foldl apply_pid_op p ops)"
  by (induction ops arbitrary: p) (auto simp: apply_pid_op_distinct)

text \<open>
  C10. The PID collections never contain duplicates: whatever sequence of add and delete
  operations the demultiplexer performs from the empty collections, each of the three lists
  stays duplicate-free, and every single operation keeps a duplicate-free state duplicate-free.
  An add appends the PID exactly when it is not yet a member and is idempotent;
  \<^verbatim>\<open>delSCTE35PID\<close> leaves exactly the PIDs different from the given one, in their
  original order.
\<close>

theorem pid_collections_no_duplicates:
  "pids_distinct (foldl apply_pid_op zeroPIDs ops)
   \<and> (pids_distinct p \<longrightarrow> pids_distinct (apply_pid_op p opn))
   \<and> PMTPIDs (addPMTPID p pid) = (if pid \<in> set (PMTPIDs p) then PMTPIDs p else PMTPIDs p @ [pid])
   \<and> PCRPIDs (addPCRPID p pid) = (if pid \<in> set (PCRPIDs p) then PCRPIDs p else PCRPIDs p @ [pid])
   \<and> SCTE35PIDs (addSCTE35PID p pid) =
         (if pid \<in> set (SCTE35PIDs p) then SCTE35PIDs p else SCTE35PIDs p @ [pid])
   \<and> addPMTPID (addPMTPID p pid) pid = addPMTPID p pid
   \<and> addPCRPID (addPCRPID p pid) pid = addPCRPID p pid
   \<and> addSCTE35PID (addSCTE35PID p pid) pid = addSCTE35PID p pid
   \<and> SCTE35PIDs (delSCTE35PID p pid) = filter (\<lambda>v. v \<noteq> pid) (SCTE35PIDs p)
   \<and> pid \<notin> set (SCTE35PIDs (delSCTE35PID p pid))"
proof -
  have "pids_distinct zeroPIDs" by (simp add: pids_distinct_def zeroPIDs_def)
  then have c1: "pids_distinct (foldl apply_pid_op zeroPIDs ops)" by (rule foldl_pid_ops_distinct)
  have c2: "pids_distinct p \<longrightarrow> pids_distinct (apply_pid_op p opn)"
    by (simp add: apply_pid_op_distinct)
  have c3: "PMTPIDs (addPMTPID p pid) = (if pid \<in> set (PMTPIDs p) then PMTPIDs p else PMTPIDs p @ [pid])"
    by (simp add: addPMTPID_def isPMTPID_def isIn16_set)
  have c4: "PCRPIDs (addPCRPID p pid) = (if pid \<in> set (PCRPIDs p) then PCRPIDs p else PCRPIDs p @ [pid])"
    by (simp add: addPCRPID_def isPCRPID_def isIn16_set)
  have c5: "SCTE35PIDs (addSCTE35PID p pid) =
     (if pid \<in> set (SCTE35PIDs p) then SCTE35PIDs p else SCTE35PIDs p @ [pid])"
    by (simp add: addSCTE35PID_def isSCTE35PID_def isIn16_set)
  have c6: "addPMTPID (addPMTPID p pid) pid = addPMTPID p pid"
    by (simp add: addPMTPID_def isPMTPID_def isIn16_set)
  have c7: "addPCRPID (addPCRPID p pid) pid = addPCRPID p pid"
    by (simp add: addPCRPID_def isPCRPID_def isIn16_set)
  have c8: "addSCTE35PID (addSCTE35PID p pid) pid = addSCTE35PID p pid"
    by (simp add: addSCTE35PID_def isSCTE35PID_def isIn16_set)
  have c9: "SCTE35PIDs (delSCTE35PID p pid) = filter (\<lambda>v. v \<noteq> pid) (SCTE35PIDs p)"
    by (rule SCTE35PIDs_del)
  then have c10: "pid \<notin> set (SCTE35PIDs (delSCTE35PID p pid))" by simp
  from c1 c2 c3 c4 c5 c6 c7 c8 c9 c10 show ?thesis by blast
qed

theorem pid_collections_no_duplicates_witness:
  "pids_distinct \<lparr>PMTPIDs = [], PCRPIDs = [], SCTE35PIDs = [5, 7, 9]\<rparr>
   \<and> pids_distinct (apply_pid_op \<lparr>PMTPIDs = [], PCRPIDs = [], SCTE35PIDs = [5, 7, 9]\<rparr> (DelSCTE35 7))
   \<and> SCTE35PIDs (delSCTE35PID \<lparr>PMTPIDs = [], PCRPIDs = [], SCTE35PIDs = [5, 7, 9]\<rparr> 7) = [5, 9]"
proof -
  have d: "pids_distinct \<lparr>PMTPIDs = [], PCRPIDs = [], SCTE35PIDs = [5, 7, 9 :: uint16]\<rparr>"
    by (simp add: pids_distinct_def)
  show ?thesis
    using d pid_collections_no_duplicates
            [of "[]" "\<lparr>PMTPIDs = [], PCRPIDs = [], SCTE35PIDs = [5, 7, 9]\<rparr>" "DelSCTE35 7" 7]
    by simp
qed



subsection \<open>Bit strings and bytes\<close>

lemma length_nat_to_bits [simp]: "length (nat_to_bits n v) = n"
  by (induction n arbitrary: v) auto

lemma nat_of_bits_snoc: "nat_of_bits (bs @ [b]) = 2 * nat_of_bits bs + (if b then 1 else 0)"
  by (simp add: nat_of_bits_def)

lemma nat_of_bits_Nil [simp]: "nat_of_bits [] = 0"
  by (simp add: nat_of_bits_def)

lemma nat_of_bits_append: "nat_of_bits (xs @ ys) = nat_of_bits xs * 2 ^ length ys + nat_of_bits ys"
proof (induction ys rule: rev_induct)
  case Nil
  then show ?case by simp
next
  case (snoc y ys)
  have "nat_of_bits (xs @ ys @ [y]) = 2 * nat_of_bits (xs @ ys) + (if y then 1 else 0)"
    using nat_of_bits_snoc [of "xs @ ys" y] by simp
  then show ?case by (simp add: snoc nat_of_bits_snoc algebra_simps)
qed

lemma nat_of_bits_to_bits: "nat_of_bits (nat_to_bits n v) = v mod 2 ^ n"
proof (induction n arbitrary: v)
  case 0
  then show ?case by simp
next
  case (Suc n)
  have "nat_of_bits (nat_to_bits n (v div 2) @ [odd v]) = 2 * ((v div 2) mod 2 ^ n) + (if odd v then 1 else 0)"
    by (simp add: nat_of_bits_snoc Suc)
  also have "\<dots> = v mod 2 ^ Suc n"
    by (simp add: mod_mult2_eq odd_iff_mod_2_eq_one)
  finally show ?case by simp
qed

lemma nat_of_bits_less: "nat_of_bits bs < 2 ^ length bs"
proof (induction bs rule: rev_induct)
  case Nil
  then show ?case by simp
next
  case (snoc b bs)
  then show ?case by (auto simp: nat_of_bits_snoc)
qed

lemma nat_to_bits_of_bits: "nat_to_bits (length bs) (nat_of_bits bs) = bs"
proof (induction bs rule: rev_induct)
  case Nil
  then show ?case by simp
next
  case (snoc b bs)
  then show ?case by (simp add: nat_of_bits_snoc)
qed

lemma nat_to_bits_add: "nat_to_bits (m + n) v = nat_to_bits m (v div 2 ^ n) @ nat_to_bits n v"
proof (induction n arbitrary: v)
  case 0
  then show ?case by simp
next
  case (Suc n)
  have "nat_to_bits (m + Suc n) v = nat_to_bits (m + n) (v div 2) @ [odd v]" by simp
  also have "\<dots> = nat_to_bits m (v div 2 div 2 ^ n) @ nat_to_bits n (v div 2) @ [odd v]"
    by (simp add: Suc)
  also have "v div 2 div 2 ^ n = v div 2 ^ Suc n"
    by (simp add: div_mult2_eq)
  finally show ?case by simp
qed

lemma nat_to_bits_mod: "nat_to_bits n (v mod 2 ^ n) = nat_to_bits n v"
proof -
  have "nat_to_bits (length (nat_to_bits n v)) (nat_of_bits (nat_to_bits n v)) = nat_to_bits n v"
    by (rule nat_to_bits_of_bits)
  then show ?thesis by (simp add: nat_of_bits_to_bits)
qed

lemma length8_cases:
  assumes "length bs = 8"
  obtains b7 b6 b5 b4 b3 b2 b1 b0 where "bs = [b7, b6, b5, b4, b3, b2, b1, b0]"
proof -
  from assms obtain b7 r1 where "bs = b7 # r1" "length r1 = 7" by (cases bs) auto
  moreover then obtain b6 r2 where "r1 = b6 # r2" "length r2 = 6" by (cases r1) auto
  moreover then obtain b5 r3 where "r2 = b5 # r3" "length r3 = 5" by (cases r2) auto
  moreover then obtain b4 r4 where "r3 = b4 # r4" "length r4 = 4" by (cases r3) auto
  moreover then obtain b3 r5 where "r4 = b3 # r5" "length r5 = 3" by (cases r4) auto
  moreover then obtain b2 r6 where "r5 = b2 # r6" "length r6 = 2" by (cases r5) auto
  moreover then obtain b1 r7 where "r6 = b1 # r7" "length r7 = 1" by (cases r6) auto
  moreover then obtain b0 where "r7 = [b0]" by (cases r7) auto
  ultimately show ?thesis using that by simp
qed

lemma bytes_of_bits_first:
  assumes "length bs = 8"
  shows "bytes_of_bits (bs @ rest) = of_nat (nat_of_bits bs) # bytes_of_bits rest"
proof -
  from assms obtain b7 b6 b5 b4 b3 b2 b1 b0 where "bs = [b7, b6, b5, b4, b3, b2, b1, b0]"
    by (rule length8_cases)
  then show ?thesis by simp
qed

lemma bytes_of_bits_nat_to_bits:
  "bytes_of_bits (nat_to_bits 8 v @ rest) = of_nat v # bytes_of_bits rest"
proof -
  have "(of_nat (v mod 2 ^ 8) :: byte) = of_nat v"
    by (simp add: word_of_nat_eq_iff take_bit_eq_mod)
  then show ?thesis
    by (simp add: bytes_of_bits_first nat_of_bits_to_bits)
qed

lemma bytes_of_bits_of_bytes_append:
  "bytes_of_bits (bits_of_bytes bs @ rest) = bs @ bytes_of_bits rest"
  by (induction bs) (simp_all add: bits_of_bytes_def bytes_of_bits_nat_to_bits)

lemma bytes_of_bits_of_bytes [simp]: "bytes_of_bits (bits_of_bytes bs) = bs"
  using bytes_of_bits_of_bytes_append [of bs "[]"] by simp

lemma length_bits_of_bytes [simp]: "length (bits_of_bytes bs) = 8 * length bs"
  by (induction bs) (simp_all add: bits_of_bytes_def)


lemmas upid_type_defs =
  SegmentationUPIDTypeISANDeprecated_def SegmentationUPIDTypeISAN_def SegmentationUPIDTypeTI_def
  SegmentationUPIDTypeEIDR_def SegmentationUPIDTypeMPU_def SegmentationUPIDTypeMID_def


lemma length_bytes_of_bits [simp]: "length (bytes_of_bits bs) = length bs div 8"
  by (induction bs rule: bytes_of_bits.induct) simp_all

lemma bits_of_bytes_Cons: "bits_of_bytes (b # bs) = nat_to_bits 8 (unat b) @ bits_of_bytes bs"
  by (simp add: bits_of_bytes_def)

lemma bits_of_bytes_append: "bits_of_bytes (xs @ ys) = bits_of_bytes xs @ bits_of_bytes ys"
  by (simp add: bits_of_bytes_def)

lemma bits_of_bytes_of_bits: "8 dvd length bs \<Longrightarrow> bits_of_bytes (bytes_of_bits bs) = bs"
proof (induction bs rule: bytes_of_bits.induct)
  case (1 b7 b6 b5 b4 b3 b2 b1 b0 rest)
  let ?w = "[b7, b6, b5, b4, b3, b2, b1, b0]"
  have lt: "nat_of_bits ?w < 2 ^ 8" using nat_of_bits_less [of ?w] by simp
  then have u: "unat (of_nat (nat_of_bits ?w) :: byte) = nat_of_bits ?w"
    by (simp add: unat_of_nat)
  have "length ?w = 8" by simp
  then have w8: "nat_to_bits 8 (nat_of_bits ?w) = ?w"
    using nat_to_bits_of_bits [of ?w] by (simp only:)
  have "8 dvd length rest"
    using "1.prems" by (simp, presburger)
  then have ih: "bits_of_bytes (bytes_of_bits rest) = rest" by (rule "1.IH")
  show ?case
    by (simp only: bytes_of_bits.simps bits_of_bytes_Cons u w8 ih append.simps)
qed (auto simp: bits_of_bytes_def dest: dvd_imp_le)

lemma length_be64 [simp]: "length (be64 v) = 8"
  by (simp add: be64_def)

lemma nat_of_bits_be64: "nat_of_bits (bits_of_bytes (be64 v)) = unat v"
proof -
  have "unat v < 2 ^ 64" using unsigned_less [of v, where 'a = nat] by simp
  then show ?thesis by (simp add: be64_def bits_of_bytes_of_bits nat_of_bits_to_bits)
qed


lemma nat_to_bits_numeral:
  "nat_to_bits (numeral k) v = nat_to_bits (pred_numeral k) (v div 2) @ [odd v]"
  by (simp add: numeral_eq_Suc)

lemmas eval_bits = nat_to_bits_numeral bits_of_bytes_def nat_of_bits_def decimal.simps



subsection \<open>The byte layout produced by the segmentation descriptor encoder\<close>

lemma bytes_of_bits_append:
  "8 dvd length xs \<Longrightarrow> bytes_of_bits (xs @ ys) = bytes_of_bits xs @ bytes_of_bits ys"
proof -
  assume "8 dvd length xs"
  then have "bits_of_bytes (bytes_of_bits xs) = xs" by (rule bits_of_bytes_of_bits)
  then have "bytes_of_bits (xs @ ys) = bytes_of_bits (bits_of_bytes (bytes_of_bits xs) @ ys)" by simp
  then show ?thesis by (simp only: bytes_of_bits_of_bytes_append)
qed

lemma nat_to_bits_mod_ge: "n \<le> m \<Longrightarrow> nat_to_bits n (v mod 2 ^ m) = nat_to_bits n v"
proof -
  assume "n \<le> m"
  then have "(2::nat) ^ n dvd 2 ^ m" by (simp add: le_imp_power_dvd)
  then have "v mod 2 ^ m mod 2 ^ n = v mod 2 ^ n" by (rule mod_mod_cancel)
  then show ?thesis using nat_to_bits_mod [of n "v mod 2 ^ m"] nat_to_bits_mod [of n v] by simp
qed

lemma nat_to_bits8_mod: "nat_to_bits 8 (v mod 256) = nat_to_bits 8 v"
  using nat_to_bits_mod [of 8 v] by simp

lemma bits_of_bytes_Nil [simp]: "bits_of_bytes [] = []"
  by (simp add: bits_of_bytes_def)

lemma n2b_ucast [simp]: "nat_to_bits 8 (unat (ucast (v :: uint32) :: byte)) = nat_to_bits 8 (unat v)"
  by (simp add: unsigned_ucast_eq take_bit_eq_mod nat_to_bits8_mod)

lemma n2b_of_nat_byte [simp]: "nat_to_bits 8 (unat (of_nat n :: byte)) = nat_to_bits 8 n"
  using nat_to_bits_mod [of 8 n] by (simp add: unat_of_nat)

lemma n2b_of_nat32 [simp]: "nat_to_bits 8 (unat (of_nat n :: uint32)) = nat_to_bits 8 n"
  using nat_to_bits_mod_ge [of 8 32 n] by (simp add: unat_of_nat)

lemma writer_simps [simp]:
  "written (PutUint32 n v w) = written w @ nat_to_bits n (unat v)"
  "capacity (PutUint32 n v w) = capacity w"
  "written (PutUint64 n v64 w) = written w @ nat_to_bits n (unat v64)"
  "capacity (PutUint64 n v64 w) = capacity w"
  "written (PutBit b w) = written w @ [b]"
  "capacity (PutBit b w) = capacity w"
  "written (Write bs w) = written w @ bits_of_bytes bs"
  "capacity (Write bs w) = capacity w"
  "written (NewWriter k) = []"
  "capacity (NewWriter k) = k"
  by (simp_all add: PutUint32_def PutUint64_def PutBit_def Write_def NewWriter_def)

lemma encodeComponents_written:
  "written (encodeComponents rsv cs w) = written w @ concat (map (component_bits rsv) cs)
   \<and> capacity (encodeComponents rsv cs w) = capacity w"
  by (induction cs arbitrary: w) (simp_all add: component_bits_def)

lemma length_component_bits [simp]: "length (component_bits rsv c) = 48"
  by (simp add: component_bits_def)

lemma length_concat_component_bits [simp]:
  "length (concat (map (component_bits rsv) cs)) = 48 * length cs"
  by (induction cs) simp_all

lemma encodeFlags_written:
  "written (encodeFlags rsv sd w) = written w @ flags_bits rsv sd
   \<and> capacity (encodeFlags rsv sd w) = capacity w"
  by (simp add: encodeFlags_def flags_bits_def Let_def encodeComponents_written
        ProgramSegmentationFlag_def split: option.splits)

lemma length_flags_bits:
  "length (flags_bits rsv sd) =
     8 + (if Components sd = [] then 0 else 8 + 48 * length (Components sd))
       + (if SegmentationDuration sd = None then 0 else 40)"
  by (simp add: flags_bits_def split: option.splits)

lemma encodeTail_written:
  "written (encodeTail sd w) = written w @ bits_of_bytes (tail_field sd)
   \<and> capacity (encodeTail sd w) = capacity w"
  by (simp add: encodeTail_def tail_field_def opt_byte_def Let_def bits_of_bytes_Cons
        split: option.splits)

lemma midLength_defined:
  "list_all (\<lambda>u. valueBytes u \<noteq> None) us \<Longrightarrow>
   midLength us = Some (8 * sum_list (map (\<lambda>u. 2 + length (the (valueBytes u))) us))"
  by (induction us) auto

lemma upid_triple_bits:
  "nat_to_bits 8 (unat t) @ nat_to_bits 8 (unat (of_nat (length vb) :: uint32)) @ bits_of_bytes vb
   = bits_of_bytes (upid_triple t vb)"
  by (simp add: upid_triple_def bits_of_bytes_Cons)

lemma encodeMID_written:
  "list_all (\<lambda>u. valueBytes u \<noteq> None) us \<Longrightarrow>
   \<exists>w'. encodeMID us w = Some w'
      \<and> written w' = written w
           @ bits_of_bytes (concat (map (\<lambda>u. upid_triple (Type u) (the (valueBytes u))) us))
      \<and> capacity w' = capacity w"
proof (induction us arbitrary: w)
  case Nil
  then show ?case by (simp add: bits_of_bytes_def)
next
  case (Cons u us)
  then obtain vb where vb: "valueBytes u = Some vb" by auto
  let ?w1 = "Write vb (PutUint32 8 (of_nat (length vb)) (PutUint32 8 (Type u) w))"
  from Cons.prems have "list_all (\<lambda>u. valueBytes u \<noteq> None) us" by simp
  from Cons.IH [OF this, of ?w1] obtain w' where
    w': "encodeMID us ?w1 = Some w'"
        "written w' = written ?w1
           @ bits_of_bytes (concat (map (\<lambda>u. upid_triple (Type u) (the (valueBytes u))) us))"
        "capacity w' = capacity ?w1"
    by blast
  have "written ?w1 = written w @ bits_of_bytes (upid_triple (Type u) vb)"
    using upid_triple_bits [of "Type u" vb] by simp
  with w' vb show ?case by (simp add: bits_of_bytes_append)
qed

lemma typed_values_simps:
  "SegmentationUPIDs sd = [] \<Longrightarrow> typed_values sd = []"
  "SegmentationUPIDs sd = [u] \<Longrightarrow> typed_values sd = [(Type u, the (valueBytes u))]"
  by (simp_all add: typed_values_def)

lemma upid_field_many:
  "length us \<ge> 2 \<Longrightarrow>
   upid_field us = [0x0D, of_nat (sum_list (map (\<lambda>(t, vb). 2 + length vb) us))]
             @ concat (map (\<lambda>(t, vb). upid_triple t vb) us)"
  by (cases us; cases "tl us") (auto simp: upid_field_def)

lemma sum_list_plus2:
  "sum_list (map (\<lambda>u. 2 + f u) us) = sum_list (map f us) + 2 * length us"
  by (induction us) simp_all

lemma SegmentationUpidLength_defined:
  assumes "values_defined sd"
  shows "SegmentationUpidLength sd
         = Some (sum_list (map (\<lambda>(t, vb). length vb) (typed_values sd))
                 + (if length (SegmentationUPIDs sd) > 1 then 2 * length (SegmentationUPIDs sd) else 0))"
proof -
  let ?us = "SegmentationUPIDs sd"
  consider "?us = []" | u where "?us = [u]" | "length ?us > 1"
    by (cases ?us; cases "tl ?us") auto
  then show ?thesis
  proof cases
    case 1
    then show ?thesis by (simp add: SegmentationUpidLength_def typed_values_def)
  next
    case 2
    with assms obtain vb where "valueBytes u = Some vb" by (auto simp: values_defined_def)
    with 2 show ?thesis by (simp add: SegmentationUpidLength_def typed_values_def)
  next
    case 3
    from assms have d: "list_all (\<lambda>u. valueBytes u \<noteq> None) ?us" by (simp add: values_defined_def)
    have "sum_list (map (\<lambda>u. 2 + length (the (valueBytes u))) ?us)
          = sum_list (map (\<lambda>u. length (the (valueBytes u))) ?us) + 2 * length ?us"
      by (rule sum_list_plus2)
    with 3 midLength_defined [OF d] show ?thesis
      by (simp add: SegmentationUpidLength_def typed_values_def comp_def)
  qed
qed

lemma encodeUPIDs_written:
  assumes "values_defined sd"
  shows "\<exists>w'. encodeUPIDs sd w = Some w'
      \<and> written w' = written w @ bits_of_bytes (upid_field (typed_values sd))
      \<and> capacity w' = capacity w"
proof -
  let ?us = "SegmentationUPIDs sd"
  consider "?us = []" | u where "?us = [u]" | "length ?us > 1"
    by (cases ?us; cases "tl ?us") auto
  then show ?thesis
  proof cases
    case 1
    then show ?thesis
      by (simp add: encodeUPIDs_def typed_values_def upid_field_def bits_of_bytes_def)
  next
    case 2
    with assms obtain vb where vb: "valueBytes u = Some vb" by (auto simp: values_defined_def)
    with 2 upid_triple_bits [of "Type u" vb] show ?thesis
      by (simp add: encodeUPIDs_def typed_values_def upid_field_def)
  next
    case 3
    from assms have d: "list_all (\<lambda>u. valueBytes u \<noteq> None) ?us" by (simp add: values_defined_def)
    let ?ul = "sum_list (map (\<lambda>u. 2 + length (the (valueBytes u))) ?us)"
    have ul: "SegmentationUpidLength sd = Some ?ul"
      using 3 midLength_defined [OF d] by (simp add: SegmentationUpidLength_def)
    let ?w1 = "PutUint32 8 (of_nat ?ul) (PutUint32 8 SegmentationUPIDTypeMID w)"
    from encodeMID_written [OF d, of ?w1] obtain w' where
      w': "encodeMID ?us ?w1 = Some w'"
          "written w' = written ?w1
             @ bits_of_bytes (concat (map (\<lambda>u. upid_triple (Type u) (the (valueBytes u))) ?us))"
          "capacity w' = capacity ?w1"
      by blast
    have f: "upid_field (typed_values sd)
             = [0x0D, of_nat ?ul] @ concat (map (\<lambda>u. upid_triple (Type u) (the (valueBytes u))) ?us)"
      using 3 upid_field_many [of "typed_values sd"]
      by (simp add: typed_values_def comp_def)
    from 3 have n: "?us \<noteq> []" "length ?us \<noteq> Suc 0" by auto
    have e: "encodeUPIDs sd w = encodeMID ?us ?w1"
      using n ul by (simp add: encodeUPIDs_def)
    have "written w' = written w @ bits_of_bytes (upid_field (typed_values sd))"
      using w'(2) by (simp add: f bits_of_bytes_Cons bits_of_bytes_append SegmentationUPIDTypeMID_def)
    with e w'(1,3) show ?thesis by simp
  qed
qed

lemma length_upid_triple [simp]: "length (upid_triple t vb) = 2 + length vb"
  by (simp add: upid_triple_def)

lemma length_concat_triples:
  "length (concat (map (\<lambda>(t, vb). upid_triple t vb) us)) = sum_list (map (\<lambda>(t, vb). 2 + length vb) us)"
  by (induction us) auto

lemma sum_list_plus2_pair:
  "sum_list (map (\<lambda>(t, vb). 2 + length vb) us) = sum_list (map (\<lambda>(t, vb). length vb) us) + 2 * length us"
  by (induction us) auto

lemma length_upid_field:
  "length (upid_field us)
   = 2 + sum_list (map (\<lambda>(t, vb). length vb) us) + (if length us > 1 then 2 * length us else 0)"
proof -
  consider "us = []" | t vb where "us = [(t, vb)]" | "length us \<ge> 2"
    by (cases us; cases "tl us") auto
  then show ?thesis
  proof cases
    case 1
    then show ?thesis by (simp add: upid_field_def)
  next
    case 2
    then show ?thesis by (simp add: upid_field_def)
  next
    case 3
    then show ?thesis
      using sum_list_plus2_pair [of us]
      by (simp add: upid_field_many length_concat_triples)
  qed
qed

lemma length_opt_byte: "length (opt_byte v) = (if v \<noteq> None then 1 else 0)"
  by (simp add: opt_byte_def split: option.splits)

lemma length_tail_field:
  "length (tail_field sd)
   = 3 + (if SubSegmentNum sd \<noteq> None then 1 else 0) + (if SubSegmentsExpected sd \<noteq> None then 1 else 0)"
  by (simp add: tail_field_def length_opt_byte)

lemma length_typed_values [simp]: "length (typed_values sd) = length (SegmentationUPIDs sd)"
  by (simp add: typed_values_def)

lemma length_sd_defined:
  assumes "\<not> SegmentationEventCancelIndicator sd" "values_defined sd"
  shows "length_sd sd
         = Some (upid_offset sd - 2 + length (upid_field (typed_values sd)) + length (tail_field sd))"
proof -
  let ?ul = "sum_list (map (\<lambda>(t, vb). length vb) (typed_values sd))
                 + (if length (SegmentationUPIDs sd) > 1 then 2 * length (SegmentationUPIDs sd) else 0)"
  have ul: "SegmentationUpidLength sd = Some ?ul"
    by (rule SegmentationUpidLength_defined [OF assms(2)])
  let ?c = "if Components sd = [] then 0 else 1 + 6 * length (Components sd)"
  let ?d = "if SegmentationDuration sd = None then 0 else (5::nat)"
  let ?s1 = "if SubSegmentNum sd \<noteq> None then 1 else (0::nat)"
  let ?s2 = "if SubSegmentsExpected sd \<noteq> None then 1 else (0::nat)"
  have "length_bits sd = Some (8 * (10 + ?c + ?d + 2 + ?ul + 3 + ?s1 + ?s2))"
    using assms(1) ul
    by (simp add: length_bits_def ProgramSegmentationFlag_def SegmentationDurationFlag_def)
  then have "length_sd sd = Some (10 + ?c + ?d + 2 + ?ul + 3 + ?s1 + ?s2)"
    by (simp only: length_sd_def option.case) simp
  then show ?thesis
    by (simp add: upid_offset_def length_upid_field length_tail_field)
qed

lemma length_head_bits [simp]: "length (head_bits rsv len sd) = 88"
  by (simp add: head_bits_def)

lemma encode_writer_layout:
  assumes "\<not> SegmentationEventCancelIndicator sd" "values_defined sd"
  shows "\<exists>w len. encode_writer rsv sd = Some w \<and> length_sd sd = Some len
           \<and> capacity w = len + 2
           \<and> written w = (head_bits rsv len sd @ flags_bits rsv sd)
                @ bits_of_bytes (upid_field (typed_values sd) @ tail_field sd)"
proof -
  obtain len where len: "length_sd sd = Some len"
    using length_sd_defined [OF assms] by simp
  let ?w0 = "PutUint32 7 rsv
                       (PutBit (SegmentationEventCancelIndicator sd)
                         (PutUint32 32 (SegmentationEventID sd)
                           (PutUint32 32 CUEIdentifier
                             (PutUint32 8 (of_nat len)
                               (PutUint32 8 SegmentationDescriptorTag (NewWriter (len + 2)))))))"
  have w0: "written ?w0 = head_bits rsv len sd" "capacity ?w0 = len + 2"
    by (simp_all add: head_bits_def SegmentationDescriptorTag_def)
  let ?w1 = "encodeFlags rsv sd ?w0"
  have w1: "written ?w1 = head_bits rsv len sd @ flags_bits rsv sd" "capacity ?w1 = len + 2"
    using encodeFlags_written [of rsv sd ?w0] w0 by simp_all
  from encodeUPIDs_written [OF assms(2), of ?w1] obtain w2 where
    w2: "encodeUPIDs sd ?w1 = Some w2"
        "written w2 = written ?w1 @ bits_of_bytes (upid_field (typed_values sd))"
        "capacity w2 = capacity ?w1"
    by blast
  let ?w3 = "encodeTail sd w2"
  have w3: "written ?w3 = written w2 @ bits_of_bytes (tail_field sd)" "capacity ?w3 = capacity w2"
    using encodeTail_written [of sd w2] by simp_all
  have "encode_writer rsv sd = Some ?w3"
    using assms(1) len w2(1) by (simp add: encode_writer_def Let_def)
  moreover have "written ?w3 = (head_bits rsv len sd @ flags_bits rsv sd)
                @ bits_of_bytes (upid_field (typed_values sd) @ tail_field sd)"
    using w3(1) w2(2) w1(1) by (simp add: bits_of_bytes_append)
  moreover have "capacity ?w3 = len + 2" using w3(2) w2(3) w1(2) by simp
  ultimately show ?thesis using len by blast
qed

lemma buffer_exact:
  "length (written w) = 8 * capacity w \<Longrightarrow> buffer w = bytes_of_bits (written w) \<and> Flush w = None"
  by (simp add: buffer_def Flush_def)

lemma encode_layout:
  assumes "\<not> SegmentationEventCancelIndicator sd" "values_defined sd"
  shows "\<exists>front. length front = upid_offset sd
           \<and> encode rsv sd = Some (front @ upid_field (typed_values sd) @ tail_field sd, None)"
proof -
  from encode_writer_layout [OF assms, of rsv] obtain w len where
    w: "encode_writer rsv sd = Some w" "length_sd sd = Some len" "capacity w = len + 2"
       "written w = (head_bits rsv len sd @ flags_bits rsv sd)
                @ bits_of_bytes (upid_field (typed_values sd) @ tail_field sd)"
    by blast
  let ?hf = "head_bits rsv len sd @ flags_bits rsv sd"
  let ?front = "bytes_of_bits ?hf"
  have lhf: "length ?hf = 8 * upid_offset sd"
    by (simp add: length_flags_bits upid_offset_def)
  then have d: "8 dvd length ?hf" by simp
  have lf: "length ?front = upid_offset sd"
    using lhf by simp
  have len': "len = upid_offset sd - 2 + length (upid_field (typed_values sd)) + length (tail_field sd)"
    using length_sd_defined [OF assms] w(2) by simp
  have "2 \<le> upid_offset sd" by (simp add: upid_offset_def)
  with len' have "length (written w) = 8 * capacity w"
    using w(3,4) lhf by simp
  then have b: "buffer w = bytes_of_bits (written w)" "Flush w = None"
    using buffer_exact [of w] by simp_all
  have "bytes_of_bits (written w) = ?front @ upid_field (typed_values sd) @ tail_field sd"
    using w(4) bytes_of_bits_append [OF d] by simp
  with b w(1) have "encode rsv sd = Some (?front @ upid_field (typed_values sd) @ tail_field sd, None)"
    by (simp add: encode_def)
  with lf show ?thesis by blast
qed

lemma encode_cancelled:
  assumes "SegmentationEventCancelIndicator sd"
  shows "encode rsv sd = Some (cancelled_form rsv sd, None)"
proof -
  have len: "length_sd sd = Some 9"
    using assms by (simp add: length_sd_def length_bits_def)
  let ?w0 = "PutUint32 7 rsv
                       (PutBit True
                         (PutUint32 32 (SegmentationEventID sd)
                           (PutUint32 32 CUEIdentifier
                             (PutUint32 8 (of_nat 9)
                               (PutUint32 8 SegmentationDescriptorTag (NewWriter (9 + 2)))))))"
  have e: "encode_writer rsv sd = Some ?w0"
    using assms len by (simp add: encode_writer_def)
  have be: "bits_of_bytes (be32 (SegmentationEventID sd)) = nat_to_bits 32 (unat (SegmentationEventID sd))"
    by (simp add: be32_def bits_of_bytes_of_bits)
  have c: "nat_to_bits 8 (unat SegmentationDescriptorTag) @ nat_to_bits 8 (unat (of_nat 9 :: uint32))
             @ nat_to_bits 32 (unat CUEIdentifier)
           = bits_of_bytes [0x02, 0x09, 0x43, 0x55, 0x45, 0x49]"
    by (simp add: SegmentationDescriptorTag_def CUEIdentifier_def bits_of_bytes_def nat_to_bits_numeral)
  have "written ?w0 = (nat_to_bits 8 (unat SegmentationDescriptorTag) @ nat_to_bits 8 (unat (of_nat 9 :: uint32))
             @ nat_to_bits 32 (unat CUEIdentifier)) @ nat_to_bits 32 (unat (SegmentationEventID sd))
             @ (True # nat_to_bits 7 (unat rsv))"
    by (simp only: writer_simps append_assoc append.simps)
  then have wr: "written ?w0 = bits_of_bytes ([0x02, 0x09, 0x43, 0x55, 0x45, 0x49] @ be32 (SegmentationEventID sd))
                           @ (True # nat_to_bits 7 (unat rsv))"
    by (simp only: c be bits_of_bytes_append append_assoc)
  have "length (written ?w0) = 8 * capacity ?w0" by simp
  then have b: "buffer ?w0 = bytes_of_bits (written ?w0)" "Flush ?w0 = None"
    using buffer_exact [of ?w0] by simp_all
  have "bytes_of_bits (written ?w0) = cancelled_form rsv sd"
    unfolding wr cancelled_form_def by (simp only: bytes_of_bits_of_bytes_append append_assoc)
  with b e show ?thesis by (simp add: encode_def)
qed



subsection \<open>Evaluation of the codec on concrete descriptors\<close>

lemmas eval_writer = encode_def encode_writer_def length_sd_def length_bits_def
  SegmentationUpidLength_def encodeUPIDs_def encodeFlags_def encodeTail_def
  ProgramSegmentationFlag_def SegmentationDurationFlag_def DeliveryNotRestrictedFlag_def
  valueBytes_def upid_type_defs buffer_def Flush_def be64_def be32_def
  SegmentationDescriptorTag_def CUEIdentifier_def Atoi_def str_def is_digit_def digits_value_def

lemma encode_sample_14_1: "encode 0xFF sample_14_1_descriptor = Some (sample_14_1, None)"
  by (simp add: sample_14_1_descriptor_def sample_14_1_def eval_writer eval_bits)

lemmas eval_reader = decode_def decode_state_def decodeHead_def decodeFront_def decodeRestrictions_def
  decodeUPIDs_def decodeSubSegments_def NewReader_def Skip_def Bit_def Uint32_def Uint64_def Bytes_def
  LeftBits_def LeftBytes_def readerError_def rd_fail_def NewSegmentationUPID_def
  SegmentationTypeProviderPOStart_def SegmentationTypeDistributorPOStart_def upid_type_defs
  zeroSegmentationDescriptor_def str_def digit_char_def

lemma decode_sample_14_1:
  "decode zeroSegmentationDescriptor sample_14_1 = (sample_14_1_descriptor, None)"
  by (simp add: sample_14_1_descriptor_def sample_14_1_def eval_reader eval_bits)

subsection \<open>The UPID field of an encoded descriptor\<close>

lemma midLength_undefined:
  "\<not> list_all (\<lambda>u. valueBytes u \<noteq> None) us \<Longrightarrow> midLength us = None"
  by (induction us) (auto split: option.splits)

lemma encode_undefined:
  assumes "\<not> SegmentationEventCancelIndicator sd" "\<not> values_defined sd"
  shows "encode rsv sd = None"
proof -
  let ?us = "SegmentationUPIDs sd"
  from assms(2) have nd: "\<not> list_all (\<lambda>u. valueBytes u \<noteq> None) ?us"
    by (simp add: values_defined_def)
  then have "?us \<noteq> []" by auto
  then consider u where "?us = [u]" | "length ?us > 1"
    by (cases ?us; cases "tl ?us") auto
  then have "SegmentationUpidLength sd = None"
  proof cases
    case 1
    with nd show ?thesis by (auto simp: SegmentationUpidLength_def)
  next
    case 2
    with midLength_undefined [OF nd] show ?thesis by (simp add: SegmentationUpidLength_def)
  qed
  with assms(1) have "length_sd sd = None" by (simp add: length_sd_def length_bits_def)
  then show ?thesis by (simp add: encode_def encode_writer_def)
qed


lemma values_defined_long_uri:
  "values_defined long_uri_descriptor \<and> \<not> SegmentationEventCancelIndicator long_uri_descriptor
   \<and> typed_values long_uri_descriptor = [(0x0F, replicate 256 0x41)]
   \<and> upid_offset long_uri_descriptor = 12"
  by (simp add: values_defined_def long_uri_descriptor_def zeroSegmentationDescriptor_def
        valueBytes_def upid_type_defs str_def typed_values_def upid_offset_def)


text \<open>
  C5, as stated, fails: the UPID type and the UPID length are 8-bit fields. A descriptor whose
  single URI UPID has a value of 256 bytes is encoded with the length byte 0, not with the
  length of its value bytes.
\<close>

theorem upid_length_byte_counterexample:
  "map_option (\<lambda>u. length u) (valueBytes (hd (SegmentationUPIDs long_uri_descriptor))) = Some 256
   \<and> map_option (\<lambda>r. take 2 (drop 12 (fst r))) (encode 0xFF long_uri_descriptor) = Some [0x0F, 0x00]"
proof -
  from values_defined_long_uri encode_layout [of long_uri_descriptor "0xFF"]
  obtain front where f: "length front = 12"
    "encode 0xFF long_uri_descriptor
       = Some (front @ upid_field [(0x0F, replicate 256 0x41)] @ tail_field long_uri_descriptor, None)"
    by auto
  have "take 2 (upid_field [(0x0F, replicate 256 0x41)]) = [0x0F, 0x00]"
    by (simp add: upid_field_def upid_triple_def)
  with f have "map_option (\<lambda>r. take 2 (drop 12 (fst r))) (encode 0xFF long_uri_descriptor) = Some [0x0F, 0x00]"
    by (simp add: length_upid_field)
  moreover have "map_option (\<lambda>u. length u) (valueBytes (hd (SegmentationUPIDs long_uri_descriptor))) = Some 256"
    by (simp add: long_uri_descriptor_def valueBytes_def upid_type_defs str_def)
  ultimately show ?thesis by simp
qed


text \<open>
  C5, amended. For every descriptor that is not cancelled and whose UPID values are all
  defined (an MPU UPID needs its format identifier), \<open>encode\<close> returns, behind the
  \<open>upid_offset\<close> bytes in front of it, the UPID field followed by the three type and
  segment bytes and the optional sub-segment bytes. The UPID field is: two zero bytes for an
  empty UPID list; for exactly one UPID the low eight bits of its type, the low eight bits of
  the length of its value bytes, and the value bytes; for more than one UPID the type 0x0D,
  the low eight bits of the sum over all UPIDs of 2 plus the length of the value bytes, and
  each UPID's triple. A length below 256 is its own low eight bits. When a UPID value is
  undefined the encoder panics.
\<close>

theorem upid_field_layout:
  "(\<not> SegmentationEventCancelIndicator sd \<and> values_defined sd \<longrightarrow>
      (\<exists>front. length front = upid_offset sd
         \<and> encode rsv sd = Some (front @ upid_field (typed_values sd) @ tail_field sd, None)))
   \<and> (\<not> SegmentationEventCancelIndicator sd \<and> \<not> values_defined sd \<longrightarrow> encode rsv sd = None)
   \<and> upid_field [] = [0x00, 0x00]
   \<and> upid_field [(t, vb)] = [ucast t, of_nat (length vb)] @ vb
   \<and> (length us \<ge> 2 \<longrightarrow>
        upid_field us = [0x0D, of_nat (sum_list (map (\<lambda>(t, vb). 2 + length vb) us))]
                        @ concat (map (\<lambda>(t, vb). [ucast t, of_nat (length vb)] @ vb) us))
   \<and> (n < 256 \<longrightarrow> unat (of_nat n :: byte) = n)"
proof -
  have a: "\<not> SegmentationEventCancelIndicator sd \<and> values_defined sd \<longrightarrow>
      (\<exists>front. length front = upid_offset sd
         \<and> encode rsv sd = Some (front @ upid_field (typed_values sd) @ tail_field sd, None))"
    using encode_layout [where sd = sd and rsv = rsv] by blast
  have b: "\<not> SegmentationEventCancelIndicator sd \<and> \<not> values_defined sd \<longrightarrow> encode rsv sd = None"
    using encode_undefined [where sd = sd and rsv = rsv] by blast
  have c: "upid_field [] = [0x00, 0x00]" by (simp add: upid_field_def)
  have d: "upid_field [(t, vb)] = [ucast t, of_nat (length vb)] @ vb"
    by (simp add: upid_field_def upid_triple_def)
  have e: "length us \<ge> 2 \<longrightarrow>
        upid_field us = [0x0D, of_nat (sum_list (map (\<lambda>(t, vb). 2 + length vb) us))]
                        @ concat (map (\<lambda>(t, vb). [ucast t, of_nat (length vb)] @ vb) us)"
    using upid_field_many [of us] by (simp add: upid_triple_def)
  have f: "n < 256 \<longrightarrow> unat (of_nat n :: byte) = n" by (simp add: unat_of_nat)
  from a b c d e f show ?thesis by blast
qed
theorem upid_field_layout_witness:
  "\<not> SegmentationEventCancelIndicator sample_14_1_descriptor
   \<and> values_defined sample_14_1_descriptor
   \<and> upid_offset sample_14_1_descriptor = 17
   \<and> map_option (\<lambda>r. drop 17 (fst r)) (encode 0xFF sample_14_1_descriptor)
       = Some [0x08, 0x08, 0x00, 0x00, 0x00, 0x00, 0x2C, 0xA0, 0xA1, 0x8A, 0x34, 0x02, 0x00]"
proof -
  have nc: "\<not> SegmentationEventCancelIndicator sample_14_1_descriptor"
    by (simp add: sample_14_1_descriptor_def)
  have a: "Atoi (str ''748724618'') = Some 748724618"
    by (simp add: Atoi_def str_def is_digit_def digits_value_def)
  have vb: "valueBytes \<lparr>Type = 8, FormatIdentifier = None, Format = str ''text'', Value = str ''748724618''\<rparr>
            = Some [0x00, 0x00, 0x00, 0x00, 0x2C, 0xA0, 0xA1, 0x8A]"
    by (simp add: valueBytes_def upid_type_defs a be64_def eval_bits)
  have vd: "values_defined sample_14_1_descriptor"
    by (simp add: values_defined_def sample_14_1_descriptor_def vb)
  have tv: "typed_values sample_14_1_descriptor = [(8, [0x00, 0x00, 0x00, 0x00, 0x2C, 0xA0, 0xA1, 0x8A])]"
    by (simp add: typed_values_def sample_14_1_descriptor_def vb)
  have off: "upid_offset sample_14_1_descriptor = 17"
    by (simp add: upid_offset_def sample_14_1_descriptor_def)
  have tl: "tail_field sample_14_1_descriptor = [0x34, 0x02, 0x00]"
    by (simp add: tail_field_def opt_byte_def sample_14_1_descriptor_def)
  from upid_field_layout [of sample_14_1_descriptor "0xFF" 8 "[0x00, 0x00, 0x00, 0x00, 0x2C, 0xA0, 0xA1, 0x8A]" "[]" 8]
       nc vd tv off tl
  show ?thesis by auto
qed


subsection \<open>The sub-segment fields\<close>

lemma decodeUPIDs_keeps:
  "SubSegmentNum (fst (decodeUPIDs sd r)) = SubSegmentNum sd"
  "SubSegmentsExpected (fst (decodeUPIDs sd r)) = SubSegmentsExpected sd"
  "SegmentationEventCancelIndicator (fst (decodeUPIDs sd r)) = SegmentationEventCancelIndicator sd"
  by (simp_all add: decodeUPIDs_def split: prod.splits)

lemma decodeUPIDs_keepsD:
  "decodeUPIDs s q = (x, y) \<Longrightarrow>
   SubSegmentNum x = SubSegmentNum s \<and> SubSegmentsExpected x = SubSegmentsExpected s
   \<and> SegmentationEventCancelIndicator x = SegmentationEventCancelIndicator s"
  using decodeUPIDs_keeps [of s q] by simp

lemma decodeFront_keeps:
  "SubSegmentNum (fst (decodeFront sd r)) = SubSegmentNum sd"
  "SubSegmentsExpected (fst (decodeFront sd r)) = SubSegmentsExpected sd"
  "SegmentationEventCancelIndicator (fst (decodeFront sd r)) = SegmentationEventCancelIndicator sd"
  by (auto simp: decodeFront_def Let_def split: prod.splits if_splits dest!: decodeUPIDs_keepsD)

lemma decodeHead_keeps:
  "SubSegmentNum (fst (decodeHead sd b)) = SubSegmentNum sd"
  "SubSegmentsExpected (fst (decodeHead sd b)) = SubSegmentsExpected sd"
  by (simp_all add: decodeHead_def split: prod.splits)


text \<open>
  C4, as stated, fails on encode: a cancelled descriptor whose \<open>SubSegmentNum\<close> is
  present is encoded as the eleven bytes of the cancelled form, without that byte.
\<close>

theorem sub_segment_cancelled_counterexample:
  "SubSegmentNum cancelled_with_sub_segment = Some 1
   \<and> encode 0xFF cancelled_with_sub_segment
       = Some ([0x02, 0x09, 0x43, 0x55, 0x45, 0x49, 0x00, 0x00, 0x00, 0x00, 0xFF], None)"
  by (simp add: cancelled_with_sub_segment_def zeroSegmentationDescriptor_def eval_writer eval_bits)

text \<open>
  C4, amended. Decoding into a fresh descriptor sets \<open>sub_segment_num\<close> and
  \<open>sub_segments_expected\<close> exactly when the descriptor is not cancelled, the type id is
  0x34 or 0x36 and exactly 16 bits are left after \<open>segments_expected\<close>; they are then the
  next two bytes, and in every other case both stay absent. On encode of a descriptor that is
  not cancelled and whose UPID values are all defined, each of the two bytes is written,
  behind \<open>segments_expected\<close>, exactly when its field is present. A descriptor that is not
  cancelled and holds a UPID without a value (an MPU UPID whose \<open>FormatIdentifier\<close> is
  \<open>nil\<close>) is not encoded at all: \<open>length\<close> panics in \<open>valueBytes\<close>. A cancelled
  descriptor is written as its eleven-byte cancelled form, whatever the two fields hold.
\<close>

theorem sub_segment_fields:
  "(SubSegmentNum (fst (decode zeroSegmentationDescriptor b)) \<noteq> None \<longleftrightarrow>
      \<not> SegmentationEventCancelIndicator (fst (decode zeroSegmentationDescriptor b))
      \<and> (SegmentationTypeID (fst (decode zeroSegmentationDescriptor b)) = 0x34
         \<or> SegmentationTypeID (fst (decode zeroSegmentationDescriptor b)) = 0x36)
      \<and> LeftBits (after_segments_expected b) = 16)
   \<and> (SubSegmentsExpected (fst (decode zeroSegmentationDescriptor b)) \<noteq> None \<longleftrightarrow>
      SubSegmentNum (fst (decode zeroSegmentationDescriptor b)) \<noteq> None)
   \<and> (SubSegmentNum (fst (decode zeroSegmentationDescriptor b)) \<noteq> None \<longrightarrow>
      SubSegmentNum (fst (decode zeroSegmentationDescriptor b))
        = Some (of_nat (nat_of_bits (take 8 (unread (after_segments_expected b)))))
      \<and> SubSegmentsExpected (fst (decode zeroSegmentationDescriptor b))
        = Some (of_nat (nat_of_bits (drop 8 (unread (after_segments_expected b))))))
   \<and> (\<not> SegmentationEventCancelIndicator sd \<and> values_defined sd \<longrightarrow>
        (\<exists>front. length front = upid_offset sd + length (upid_field (typed_values sd))
           \<and> encode rsv sd
               = Some (front @ [ucast (SegmentationTypeID sd), ucast (SegmentNum sd), ucast (SegmentsExpected sd)]
                         @ opt_byte (SubSegmentNum sd) @ opt_byte (SubSegmentsExpected sd), None)))
   \<and> (\<not> SegmentationEventCancelIndicator sd \<and> \<not> values_defined sd \<longrightarrow> encode rsv sd = None)
   \<and> (SegmentationEventCancelIndicator sd \<longrightarrow> encode rsv sd = Some (cancelled_form rsv sd, None))
   \<and> length (cancelled_form rsv sd) = 11
   \<and> opt_byte None = [] \<and> opt_byte (Some n) = [ucast n]"
proof -
  let ?z = zeroSegmentationDescriptor
  obtain sd1 r1 where h: "decodeHead ?z b = (sd1, r1)" by (cases "decodeHead ?z b")
  obtain sd2 r2 where f: "decodeFront sd1 r1 = (sd2, r2)" by (cases "decodeFront sd1 r1")
  have r2: "after_segments_expected b = r2" by (simp add: after_segments_expected_def h f)
  have n1: "SubSegmentNum sd1 = None" "SubSegmentsExpected sd1 = None"
    using decodeHead_keeps [of ?z b] h by (simp_all add: zeroSegmentationDescriptor_def)
  have n2: "SubSegmentNum sd2 = None" "SubSegmentsExpected sd2 = None"
    "SegmentationEventCancelIndicator sd2 = SegmentationEventCancelIndicator sd1"
    using decodeFront_keeps [of sd1 r1] f n1 by simp_all
  let ?sd = "fst (decode ?z b)"
  have d: "?sd = (if \<not> SegmentationEventCancelIndicator sd1 then fst (decodeSubSegments sd2 r2) else sd1)"
    by (simp add: decode_def decode_state_def h f split: prod.splits)
  have sub: "fst (decodeSubSegments sd2 r2) =
     (if (SegmentationTypeID sd2 = 0x34 \<or> SegmentationTypeID sd2 = 0x36) \<and> LeftBits r2 = 16
      then sd2\<lparr>SubSegmentNum := Some (of_nat (nat_of_bits (take 8 (unread r2)))),
               SubSegmentsExpected := Some (of_nat (nat_of_bits (drop 8 (unread r2))))\<rparr>
      else sd2)"
    by (simp add: decodeSubSegments_def SegmentationTypeProviderPOStart_def
          SegmentationTypeDistributorPOStart_def Uint32_def LeftBits_def)
  have p1: "SubSegmentNum ?sd \<noteq> None \<longleftrightarrow>
      \<not> SegmentationEventCancelIndicator ?sd
      \<and> (SegmentationTypeID ?sd = 0x34 \<or> SegmentationTypeID ?sd = 0x36)
      \<and> LeftBits (after_segments_expected b) = 16"
    unfolding r2 d sub using n1 n2 by auto
  have p2: "SubSegmentsExpected ?sd \<noteq> None \<longleftrightarrow> SubSegmentNum ?sd \<noteq> None"
    unfolding d sub using n1 n2 by auto
  have p3: "SubSegmentNum ?sd \<noteq> None \<longrightarrow>
      SubSegmentNum ?sd = Some (of_nat (nat_of_bits (take 8 (unread (after_segments_expected b)))))
      \<and> SubSegmentsExpected ?sd = Some (of_nat (nat_of_bits (drop 8 (unread (after_segments_expected b)))))"
    unfolding r2 d sub using n1 n2 by auto
  have p4: "\<not> SegmentationEventCancelIndicator sd \<and> values_defined sd \<longrightarrow>
        (\<exists>front. length front = upid_offset sd + length (upid_field (typed_values sd))
           \<and> encode rsv sd
               = Some (front @ [ucast (SegmentationTypeID sd), ucast (SegmentNum sd), ucast (SegmentsExpected sd)]
                         @ opt_byte (SubSegmentNum sd) @ opt_byte (SubSegmentsExpected sd), None))"
  proof
    assume a: "\<not> SegmentationEventCancelIndicator sd \<and> values_defined sd"
    then obtain front where fr: "length front = upid_offset sd"
      "encode rsv sd = Some (front @ upid_field (typed_values sd) @ tail_field sd, None)"
      using encode_layout [of sd rsv] by blast
    let ?front = "front @ upid_field (typed_values sd)"
    have "length ?front = upid_offset sd + length (upid_field (typed_values sd))" using fr(1) by simp
    moreover have "encode rsv sd
               = Some (?front @ [ucast (SegmentationTypeID sd), ucast (SegmentNum sd), ucast (SegmentsExpected sd)]
                         @ opt_byte (SubSegmentNum sd) @ opt_byte (SubSegmentsExpected sd), None)"
      using fr(2) by (simp add: tail_field_def)
    ultimately show "\<exists>front. length front = upid_offset sd + length (upid_field (typed_values sd))
           \<and> encode rsv sd
               = Some (front @ [ucast (SegmentationTypeID sd), ucast (SegmentNum sd), ucast (SegmentsExpected sd)]
                         @ opt_byte (SubSegmentNum sd) @ opt_byte (SubSegmentsExpected sd), None)"
      by blast
  qed
  have p5: "SegmentationEventCancelIndicator sd \<longrightarrow> encode rsv sd = Some (cancelled_form rsv sd, None)"
    using encode_cancelled [of sd rsv] by blast
  have p6: "length (cancelled_form rsv sd) = 11"
    by (simp add: cancelled_form_def be32_def)
  have p7: "opt_byte None = [] \<and> opt_byte (Some n) = [ucast n]" by (simp add: opt_byte_def)
  have p8: "\<not> SegmentationEventCancelIndicator sd \<and> \<not> values_defined sd \<longrightarrow> encode rsv sd = None"
    using encode_undefined [of sd rsv] by blast
  from p1 p2 p3 p4 p5 p6 p7 p8 show ?thesis by blast
qed

text \<open>
  An instance: the descriptor of Sample 14.1 with the two sub-segment bytes 1 and 3 is decoded
  with both fields present and encoded to the same bytes; with an MPU UPID that has no format
  identifier the same fields are not written, because nothing is.
\<close>

theorem sub_segment_fields_witness:
  "\<not> SegmentationEventCancelIndicator (fst (decode zeroSegmentationDescriptor sample_with_sub_segments))
   \<and> SegmentationTypeID (fst (decode zeroSegmentationDescriptor sample_with_sub_segments)) = 0x34
   \<and> LeftBits (after_segments_expected sample_with_sub_segments) = 16
   \<and> SubSegmentNum (fst (decode zeroSegmentationDescriptor sample_with_sub_segments)) = Some 1
   \<and> SubSegmentsExpected (fst (decode zeroSegmentationDescriptor sample_with_sub_segments)) = Some 3
   \<and> encode 0xFF (fst (decode zeroSegmentationDescriptor sample_with_sub_segments))
       = Some (sample_with_sub_segments, None)
   \<and> \<not> SegmentationEventCancelIndicator mpu_without_format
   \<and> \<not> values_defined mpu_without_format
   \<and> SubSegmentNum mpu_without_format = Some 1
   \<and> encode 0xFF mpu_without_format = None"
proof -
  have d: "decode zeroSegmentationDescriptor sample_with_sub_segments
           = (sample_14_1_descriptor\<lparr>SubSegmentNum := Some 1, SubSegmentsExpected := Some 3\<rparr>, None)"
    by (simp add: sample_14_1_descriptor_def sample_with_sub_segments_def eval_reader eval_bits)
  have l: "LeftBits (after_segments_expected sample_with_sub_segments) = 16"
    by (simp add: after_segments_expected_def sample_with_sub_segments_def eval_reader eval_bits)
  have e: "encode 0xFF (sample_14_1_descriptor\<lparr>SubSegmentNum := Some 1, SubSegmentsExpected := Some 3\<rparr>)
           = Some (sample_with_sub_segments, None)"
    by (simp add: sample_14_1_descriptor_def sample_with_sub_segments_def eval_writer eval_bits)
  have m: "\<not> SegmentationEventCancelIndicator mpu_without_format"
    "\<not> values_defined mpu_without_format" "SubSegmentNum mpu_without_format = Some 1"
    by (simp_all add: mpu_without_format_def zeroSegmentationDescriptor_def values_defined_def
          valueBytes_def upid_type_defs)
  from sub_segment_fields [of sample_with_sub_segments
         "sample_14_1_descriptor\<lparr>SubSegmentNum := Some 1, SubSegmentsExpected := Some 3\<rparr>" "0xFF" 1]
       sub_segment_fields [of sample_with_sub_segments mpu_without_format "0xFF" 1]
       d l e m
  show ?thesis by (simp add: sample_14_1_descriptor_def)
qed


subsection \<open>TI UPIDs\<close>

lemma Type_NewSegmentationUPID [simp]: "Type (NewSegmentationUPID t buf) = t"
  by (simp add: NewSegmentationUPID_def Let_def split: prod.splits)

text \<open>
  C9. A TI UPID (type 0x08) always encodes to exactly eight value bytes: \<open>valueBytes\<close>
  returns an 8-byte buffer which holds, big-endian, the 64-bit two's complement of the number
  that \<open>Atoi\<close> parses from \<open>Value\<close>, and eight zero bytes when \<open>Atoi\<close> rejects the
  text. Consequently a descriptor whose only UPID was decoded as TI from a wire value of any
  length \<open>buf\<close> has \<open>segmentation_upid_length\<close> 8, and the encoder writes type 8, length 8 and
  those eight bytes.
\<close>

theorem ti_upid_value_is_eight_bytes:
  "(Type upid = SegmentationUPIDTypeTI \<longrightarrow>
      (\<exists>vb. valueBytes upid = Some vb \<and> length vb = 8
         \<and> (\<forall>i. Atoi (Value upid) = Some i \<longrightarrow>
               nat_of_bits (bits_of_bytes vb) = unat (word_of_int i :: uint64))
         \<and> (Atoi (Value upid) = None \<longrightarrow> vb = replicate 8 0)))
   \<and> (SegmentationUPIDs sd = [NewSegmentationUPID SegmentationUPIDTypeTI buf] \<longrightarrow>
        SegmentationUpidLength sd = Some 8
        \<and> (\<exists>vb. valueBytes (NewSegmentationUPID SegmentationUPIDTypeTI buf) = Some vb \<and> length vb = 8
              \<and> encodeUPIDs sd iow = Some (Write vb (PutUint32 8 8 (PutUint32 8 8 iow)))))"
proof -
  have ti: "valueBytes u = Some (case Atoi (Value u) of Some i \<Rightarrow> be64 (word_of_int i) | None \<Rightarrow> replicate 8 0)"
    if "Type u = SegmentationUPIDTypeTI" for u :: SegmentationUPID
    using that by (simp add: valueBytes_def upid_type_defs)
  have len: "length (case Atoi (Value u) of Some i \<Rightarrow> be64 (word_of_int i) | None \<Rightarrow> replicate 8 0) = 8" for u :: SegmentationUPID
    by (simp split: option.splits)
  have part1: "Type upid = SegmentationUPIDTypeTI \<longrightarrow>
      (\<exists>vb. valueBytes upid = Some vb \<and> length vb = 8
         \<and> (\<forall>i. Atoi (Value upid) = Some i \<longrightarrow>
               nat_of_bits (bits_of_bytes vb) = unat (word_of_int i :: uint64))
         \<and> (Atoi (Value upid) = None \<longrightarrow> vb = replicate 8 0))"
    using ti [of upid] len [of upid] by (auto simp: nat_of_bits_be64)
  let ?u = "NewSegmentationUPID SegmentationUPIDTypeTI buf"
  obtain vb where vb: "valueBytes ?u = Some vb" "length vb = 8"
    using ti [of ?u] len [of ?u] by simp
  have part2: "SegmentationUPIDs sd = [?u] \<longrightarrow>
        SegmentationUpidLength sd = Some 8
        \<and> (\<exists>vb. valueBytes ?u = Some vb \<and> length vb = 8
              \<and> encodeUPIDs sd iow = Some (Write vb (PutUint32 8 8 (PutUint32 8 8 iow))))"
    using vb by (simp add: SegmentationUpidLength_def encodeUPIDs_def SegmentationUPIDTypeTI_def)
  from part1 part2 show ?thesis by blast
qed


theorem ti_upid_value_is_eight_bytes_witness:
  "Type \<lparr>Type = 8, FormatIdentifier = None, Format = str ''text'', Value = str ''748724618''\<rparr>
     = SegmentationUPIDTypeTI
   \<and> Atoi (str ''748724618'') = Some 748724618
   \<and> valueBytes \<lparr>Type = 8, FormatIdentifier = None, Format = str ''text'', Value = str ''748724618''\<rparr>
     = Some [0, 0, 0, 0, 0x2C, 0xA0, 0xA1, 0x8A]
   \<and> Value (NewSegmentationUPID SegmentationUPIDTypeTI [0x2C, 0xA0, 0xA1, 0x8A]) = str ''748724618''
   \<and> SegmentationUpidLength
        (zeroSegmentationDescriptor
           \<lparr>SegmentationUPIDs := [NewSegmentationUPID SegmentationUPIDTypeTI [0x2C, 0xA0, 0xA1, 0x8A]]\<rparr>)
     = Some 8"
proof -
  let ?u = "\<lparr>Type = 8, FormatIdentifier = None, Format = str ''text'', Value = str ''748724618''\<rparr>"
  let ?sd = "zeroSegmentationDescriptor
           \<lparr>SegmentationUPIDs := [NewSegmentationUPID SegmentationUPIDTypeTI [0x2C, 0xA0, 0xA1, 0x8A]]\<rparr>"
  have a: "Atoi (str ''748724618'') = Some 748724618"
    by (simp add: Atoi_def str_def is_digit_def digits_value_def)
  have t: "Type ?u = SegmentationUPIDTypeTI" by (simp add: SegmentationUPIDTypeTI_def)
  have v: "valueBytes ?u = Some [0, 0, 0, 0, 0x2C, 0xA0, 0xA1, 0x8A]"
    by (simp add: valueBytes_def upid_type_defs a be64_def eval_bits)
  have d: "Value (NewSegmentationUPID SegmentationUPIDTypeTI [0x2C, 0xA0, 0xA1, 0x8A]) = str ''748724618''"
    by (simp add: NewSegmentationUPID_def upid_type_defs NewReader_def LeftBits_def Uint64_def
          eval_bits str_def digit_char_def)
  have s: "SegmentationUPIDs ?sd = [NewSegmentationUPID SegmentationUPIDTypeTI [0x2C, 0xA0, 0xA1, 0x8A]]"
    by simp
  from ti_upid_value_is_eight_bytes [of ?u ?sd "[0x2C, 0xA0, 0xA1, 0x8A]" "NewWriter 0"] t s a v d
  show ?thesis by simp
qed



subsection \<open>EIDR UPIDs\<close>

paragraph \<open>Decimal text\<close>

lemma unat_byte_of_nat: "m < 256 \<Longrightarrow> unat (of_nat m :: byte) = m"
  by (simp add: unat_of_nat)

lemma decimal_small: "n < 10 \<Longrightarrow> decimal n = [digit_char n]"
  by (subst decimal.simps) simp

lemma decimal_big: "\<not> n < 10 \<Longrightarrow> decimal n = decimal (n div 10) @ [digit_char (n mod 10)]"
  by (subst decimal.simps) simp

lemma decimal_digits: "list_all is_digit (decimal n)"
proof (induction n rule: decimal.induct)
  case (1 n)
  have d: "is_digit (digit_char k)" if "k < 10" for k
  proof -
    have "unat (of_nat (48 + k) :: byte) = 48 + k" using that unat_byte_of_nat [of "48 + k"] by simp
    then have "48 \<le> unat (of_nat (48 + k) :: byte) \<and> unat (of_nat (48 + k) :: byte) \<le> 57"
      using that by simp
    then show ?thesis
      by (simp add: is_digit_def digit_char_def word_le_nat_alt)
  qed
  show ?case
  proof (cases "n < 10")
    case True
    then show ?thesis by (simp add: d decimal_small)
  next
    case False
    then show ?thesis using 1 by (simp add: d decimal_big)
  qed
qed

lemma decimal_nonempty: "decimal n \<noteq> []"
  by (subst decimal.simps) simp

lemma digits_value_snoc: "digits_value (ds @ [c]) = 10 * digits_value ds + (unat c - 48)"
  by (simp add: digits_value_def)

lemma unat_digit_char: "k < 10 \<Longrightarrow> unat (digit_char k) - 48 = k"
  using unat_byte_of_nat [of "48 + k"] by (simp add: digit_char_def)

lemma digits_value_decimal: "digits_value (decimal n) = n"
proof (induction n rule: decimal.induct)
  case (1 n)
  show ?case
  proof (cases "n < 10")
    case True
    then show ?thesis by (simp add: digits_value_def unat_digit_char decimal_small)
  next
    case False
    then have "decimal n = decimal (n div 10) @ [digit_char (n mod 10)]"
      by (rule decimal_big)
    then show ?thesis using 1 False by (simp add: digits_value_snoc unat_digit_char)
  qed
qed

lemma is_digit_not_sign: "is_digit c \<Longrightarrow> c \<noteq> 0x2B \<and> c \<noteq> 0x2D \<and> c \<noteq> 0x2E \<and> c \<noteq> 0x2F"
  by (auto simp: is_digit_def)

lemma Atoi_decimal: "n < 2 ^ 63 \<Longrightarrow> Atoi (decimal n) = Some (int n)"
proof -
  assume n: "n < 2 ^ 63"
  obtain c cs where s: "decimal n = c # cs" using decimal_nonempty [of n] by (cases "decimal n") auto
  with decimal_digits [of n] have "is_digit c" by simp
  then have "c \<noteq> 0x2B" "c \<noteq> 0x2D" using is_digit_not_sign by auto
  with s have "Atoi (decimal n) =
      (if \<not> list_all is_digit (decimal n) then None
       else if digits_value (decimal n) < 2 ^ 63 then Some (int (digits_value (decimal n))) else None)"
    by (simp add: Atoi_def)
  with n show ?thesis by (simp add: decimal_digits digits_value_decimal)
qed

paragraph \<open>Hexadecimal text\<close>

lemma fromHexChar_unat:
  "fromHexChar c =
     (if 48 \<le> unat c \<and> unat c \<le> 57 then Some (unat c - 48)
      else if 97 \<le> unat c \<and> unat c \<le> 102 then Some (unat c - 87)
      else if 65 \<le> unat c \<and> unat c \<le> 70 then Some (unat c - 55)
      else None)"
  by (simp add: fromHexChar_def word_le_nat_alt)

lemma unat_hex_char: "d < 16 \<Longrightarrow> unat (hex_char d) = (if d < 10 then 48 + d else 55 + d)"
  using unat_byte_of_nat [of "48 + d"] unat_byte_of_nat [of "55 + d"]
  by (simp add: hex_char_def)

lemma fromHexChar_hex_char: "d < 16 \<Longrightarrow> fromHexChar (hex_char d) = Some d"
  by (simp add: fromHexChar_unat unat_hex_char)

lemma hex_upper_Cons:
  "hex_upper (b # bs) = hex_char (unat b div 16) # hex_char (unat b mod 16) # hex_upper bs"
  by (simp add: hex_upper_def)

lemma hex_upper_append: "hex_upper (xs @ ys) = hex_upper xs @ hex_upper ys"
  by (simp add: hex_upper_def)

lemma byte_nibbles: "(of_nat (16 * (unat b div 16) + unat b mod 16) :: byte) = b"
  by simp

lemma hexDecodeString_hex_upper: "hexDecodeString (hex_upper bs) = (bs, True)"
proof (induction bs)
  case Nil
  then show ?case by (simp add: hex_upper_def)
next
  case (Cons b bs)
  have "unat b < 256" using unsigned_less [of b, where 'a = nat] by simp
  then have "unat b div 16 < 16" "unat b mod 16 < 16" by simp_all
  then show ?case
    using Cons by (simp add: hex_upper_Cons fromHexChar_hex_char)
qed

lemma hex_char_not_sep:
  assumes "d < 16"
  shows "hex_char d \<noteq> 0x2D \<and> hex_char d \<noteq> 0x2E \<and> hex_char d \<noteq> 0x2F"
proof -
  have u: "unat (hex_char d) \<ge> 48" using assms by (simp add: unat_hex_char)
  have "unat (hex_char d) \<noteq> unat (0x2D :: byte)" "unat (hex_char d) \<noteq> unat (0x2E :: byte)"
    "unat (hex_char d) \<noteq> unat (0x2F :: byte)"
    using u by simp_all
  then show ?thesis by auto
qed

lemma hex_upper_no_sep: "c \<in> set (hex_upper bs) \<Longrightarrow> c \<noteq> 0x2D \<and> c \<noteq> 0x2E \<and> c \<noteq> 0x2F"
proof (induction bs)
  case Nil
  then show ?case by (simp add: hex_upper_def)
next
  case (Cons b bs)
  have "unat b < 256" using unsigned_less [of b, where 'a = nat] by simp
  then have "unat b div 16 < 16" "unat b mod 16 < 16" by simp_all
  with Cons hex_char_not_sep show ?case by (auto simp: hex_upper_Cons)
qed

paragraph \<open>Splitting into fields\<close>

lemma fieldsFrom_run:
  "\<forall>c \<in> set xs. \<not> f c \<Longrightarrow> fieldsFrom f cur (xs @ rest) = fieldsFrom f (cur @ xs) rest"
  by (induction xs arbitrary: cur) simp_all

lemma fieldsFrom_three:
  assumes "\<forall>c \<in> set a. \<not> f c" "\<forall>c \<in> set b. \<not> f c" "\<forall>c \<in> set d. \<not> f c"
    and "a \<noteq> []" "b \<noteq> []" "d \<noteq> []" and "f s1" "f s2"
  shows "FieldsFunc (a @ s1 # b @ s2 # d) f = [a, b, d]"
proof -
  have "fieldsFrom f [] (a @ s1 # b @ s2 # d) = fieldsFrom f a (s1 # b @ s2 # d)"
    using fieldsFrom_run [OF assms(1), of "[]"] by simp
  also have "\<dots> = a # fieldsFrom f [] (b @ s2 # d)" using assms by simp
  also have "fieldsFrom f [] (b @ s2 # d) = fieldsFrom f b (s2 # d)"
    using fieldsFrom_run [OF assms(2), of "[]"] by simp
  also have "\<dots> = b # fieldsFrom f [] (d @ [])" using assms by simp
  also have "fieldsFrom f [] (d @ []) = fieldsFrom f d []"
    using fieldsFrom_run [OF assms(3), of "[]" "[]"] by simp
  also have "\<dots> = [d]" using assms by simp
  finally show ?thesis by (simp add: FieldsFunc_def)
qed

paragraph \<open>Compression undoes the canonical rendering\<close>

lemma str_simps: "str ''10.'' = [0x31, 0x30, 0x2E]" "str ''/'' = [0x2F]" "str ''-'' = [0x2D]"
  by (simp_all add: str_def)

lemma filter_hex_upper: "filter (\<lambda>c. c \<noteq> 0x2D) (hex_upper bs) = hex_upper bs"
  using hex_upper_no_sep by (simp add: filter_id_conv)

lemma take2_groups:
  assumes "length b = 12"
  shows "take 2 (drop 2 b) @ take 2 (drop 4 b) @ take 2 (drop 6 b) @ take 2 (drop 8 b) @ take 2 (drop 10 b)
         = drop 2 b"
proof -
  have a: "take 2 (drop k b) @ drop (k + 2) b = drop k b" for k
    by (metis add.commute append_take_drop_id drop_drop)
  have "drop 12 b = []" using assms by simp
  then have "take 2 (drop 10 b) = drop 10 b" using a [of 10] by simp
  then show ?thesis using a [of 8] a [of 6] a [of 4] a [of 2] by simp
qed

lemma hex_upper_nonempty: "bs \<noteq> [] \<Longrightarrow> hex_upper bs \<noteq> []"
  by (cases bs) (simp_all add: hex_upper_Cons)

lemma compressEIDR_canonicalEIDR:
  assumes len: "length b = 12" and ns: "0x2F \<notin> set b"
  shows "compressEIDR (canonicalEIDR b) = b"
proof -
  let ?n = "nat_of_bits (bits_of_bytes (take 2 b))"
  let ?D = "decimal ?n"
  let ?g = "\<lambda>k. hex_upper (take 2 (drop k b))"
  let ?H = "?g 2 @ 0x2D # ?g 4 @ 0x2D # ?g 6 @ 0x2D # ?g 8 @ 0x2D # ?g 10"
  let ?sep = "\<lambda>r. r = (0x2E :: byte) \<or> r = 0x2F"
  have can: "canonicalEIDR b = [0x31, 0x30] @ 0x2E # ?D @ 0x2F # ?H"
    using len ns by (simp add: canonicalEIDR_def str_simps)
  have n_lt: "?n < 2 ^ 16"
    using nat_of_bits_less [of "bits_of_bytes (take 2 b)"] len by simp
  have sa: "\<forall>c \<in> set [0x31, 0x30 :: byte]. \<not> ?sep c" by simp
  have sD: "\<forall>c \<in> set ?D. \<not> ?sep c"
    using decimal_digits [of ?n] is_digit_not_sign by (auto simp: list_all_iff)
  have sH: "\<forall>c \<in> set ?H. \<not> ?sep c"
    using hex_upper_no_sep by auto
  have "take 2 (drop 10 b) \<noteq> []" using len by simp
  then have neH: "?H \<noteq> []" by simp
  have parts: "FieldsFunc (canonicalEIDR b) ?sep = [[0x31, 0x30], ?D, ?H]"
    unfolding can
    by (rule fieldsFrom_three [OF sa sD sH _ decimal_nonempty neH]) simp_all
  have "?n < 2 ^ 63" using n_lt by (rule less_trans) simp
  then have at: "Atoi ?D = Some (int ?n)" by (rule Atoi_decimal)
  have "filter (\<lambda>c. c \<noteq> 0x2D) ?H = ?g 2 @ ?g 4 @ ?g 6 @ ?g 8 @ ?g 10"
    by (simp add: filter_hex_upper)
  also have "\<dots> = hex_upper (drop 2 b)"
    using take2_groups [OF len] by (simp flip: hex_upper_append)
  finally have hx: "hexDecodeString (filter (\<lambda>c. c \<noteq> 0x2D) ?H) = (drop 2 b, True)"
    by (simp add: hexDecodeString_hex_upper)
  have "unat (word_of_int (int ?n) :: uint32) = ?n"
    using n_lt by (simp add: unat_of_nat)
  moreover have "nat_to_bits (length (bits_of_bytes (take 2 b))) ?n = bits_of_bytes (take 2 b)"
    by (rule nat_to_bits_of_bits)
  ultimately have w16: "nat_to_bits 16 (unat (word_of_int (int ?n) :: uint32)) = bits_of_bytes (take 2 b)"
    using len by simp
  let ?w = "Write (drop 2 b) (PutUint32 16 (word_of_int (int ?n)) (NewWriter 12))"
  have "written ?w = bits_of_bytes (take 2 b) @ bits_of_bytes (drop 2 b)"
    using w16 by simp
  then have wr: "written ?w = bits_of_bytes (take 2 b @ drop 2 b)"
    by (simp only: bits_of_bytes_append)
  then have "length (written ?w) = 8 * capacity ?w" using len by simp
  then have "buffer ?w = bytes_of_bits (written ?w)" using buffer_exact by blast
  with wr have buf: "buffer ?w = b" by simp
  show ?thesis
    using parts at hx buf by (simp add: compressEIDR_def)
qed

lemma LeftBytes_NewReader [simp]: "LeftBytes (NewReader b) = b"
  by (simp add: LeftBytes_def NewReader_def)

lemma nat_of_two_bytes: "nat_of_bits (bits_of_bytes [x, y]) = 256 * unat x + unat y"
proof -
  have "unat x < 2 ^ 8" "unat y < 2 ^ 8"
    using unsigned_less [of x, where 'a = nat] unsigned_less [of y, where 'a = nat] by simp_all
  then show ?thesis
    by (simp add: bits_of_bytes_Cons nat_of_bits_append nat_of_bits_to_bits)
qed

lemma take2_nth: "length b = 12 \<Longrightarrow> take 2 b = [b ! 0, b ! 1]"
  by (cases b; cases "tl b") auto

lemmas eval_upid = NewSegmentationUPID_def canonicalEIDR_def compressEIDR_def valueBytes_def
  upid_type_defs FieldsFunc_def Atoi_def is_digit_def digits_value_def str_def hex_upper_def
  hex_char_def digit_char_def fromHexChar_def buffer_def PutUint32_def Write_def NewWriter_def
  NewReader_def LeftBytes_def

text \<open>
  C6, as stated, fails in its last part: an EIDR that arrives as canonical text contains a
  slash and is passed through unchanged by the decoder, but re-encoding compresses that text
  to twelve bytes, so the 32 bytes of the wire value are not reproduced.
\<close>

theorem eidr_text_counterexample:
  "0x2F \<in> set eidr_text
   \<and> Value (NewSegmentationUPID SegmentationUPIDTypeEIDR eidr_text) = eidr_text
   \<and> valueBytes (NewSegmentationUPID SegmentationUPIDTypeEIDR eidr_text)
       = Some [0x14, 0x77, 0xC3, 0x70, 0xDC, 0xA5, 0x57, 0x79, 0x7E, 0x7E, 0xB5, 0x10]
   \<and> length eidr_text = 32"
  by (simp add: eidr_text_def eval_upid eval_bits)


text \<open>
  C6, amended. For every 12-byte raw value \<open>b\<close> without a slash, decoding (type 0x0A)
  yields \<open>10.\<close>, the decimal of the first two bytes, a slash and five hyphen-separated
  groups of two bytes in upper-case hexadecimal, and re-encoding that text with
  \<open>valueBytes\<close> / \<open>compressEIDR\<close> yields \<open>b\<close> again. A raw value that contains a slash
  is passed through as text unchanged by the decoder. On encode \<open>valueBytes\<close> hands every
  EIDR value to \<open>compressEIDR\<close>: a text that splits, at dots and slashes, into exactly
  three fields, the middle one a decimal number and the last one hexadecimal once its hyphens
  are removed, is written as the buffer of twelve bytes that holds the low 16 bits of the
  number and then the decoded bytes; every other text is written unchanged. So a text with a
  slash passes through the encoder only if it is not of that form.
\<close>

theorem eidr_codec:
  "(length b = 12 \<and> 0x2F \<notin> set b \<longrightarrow>
      Value (NewSegmentationUPID SegmentationUPIDTypeEIDR b)
        = str ''10.'' @ decimal (256 * unat (b ! 0) + unat (b ! 1)) @ str ''/''
          @ hex_upper (take 2 (drop 2 b)) @ str ''-'' @ hex_upper (take 2 (drop 4 b)) @ str ''-''
          @ hex_upper (take 2 (drop 6 b)) @ str ''-'' @ hex_upper (take 2 (drop 8 b)) @ str ''-''
          @ hex_upper (take 2 (drop 10 b))
      \<and> compressEIDR (Value (NewSegmentationUPID SegmentationUPIDTypeEIDR b)) = b
      \<and> valueBytes (NewSegmentationUPID SegmentationUPIDTypeEIDR b) = Some b)
   \<and> (0x2F \<in> set b \<longrightarrow> Value (NewSegmentationUPID SegmentationUPIDTypeEIDR b) = b)
   \<and> (length (FieldsFunc s eidr_separator) \<noteq> 3 \<longrightarrow> compressEIDR s = s)
   \<and> (0x2F \<in> set b \<and> length (FieldsFunc b eidr_separator) \<noteq> 3 \<longrightarrow>
        valueBytes (NewSegmentationUPID SegmentationUPIDTypeEIDR b) = Some b)
   \<and> (Type u = SegmentationUPIDTypeEIDR \<longrightarrow> valueBytes u = Some (compressEIDR (Value u)))
   \<and> (eidr_compressible s \<longrightarrow>
        compressEIDR s
          = buffer (Write (fst (hexDecodeString (filter (\<lambda>c. c \<noteq> 0x2D) (FieldsFunc s eidr_separator ! 2))))
                     (PutUint32 16 (word_of_int (the (Atoi (FieldsFunc s eidr_separator ! 1))))
                        (NewWriter 12)))
        \<and> length (compressEIDR s) = 12)
   \<and> (\<not> eidr_compressible s \<longrightarrow> compressEIDR s = s)"
proof -
  have v: "Value (NewSegmentationUPID SegmentationUPIDTypeEIDR x) = canonicalEIDR x" for x
    by (simp add: NewSegmentationUPID_def upid_type_defs)
  have vb: "valueBytes (NewSegmentationUPID SegmentationUPIDTypeEIDR x) = Some (compressEIDR (canonicalEIDR x))" for x
    by (simp add: NewSegmentationUPID_def valueBytes_def upid_type_defs)
  have sep: "eidr_separator = (\<lambda>r. r = 0x2E \<or> r = 0x2F)"
    by (rule ext) (simp add: eidr_separator_def)
  have p1: "length b = 12 \<and> 0x2F \<notin> set b \<longrightarrow>
      Value (NewSegmentationUPID SegmentationUPIDTypeEIDR b)
        = str ''10.'' @ decimal (256 * unat (b ! 0) + unat (b ! 1)) @ str ''/''
          @ hex_upper (take 2 (drop 2 b)) @ str ''-'' @ hex_upper (take 2 (drop 4 b)) @ str ''-''
          @ hex_upper (take 2 (drop 6 b)) @ str ''-'' @ hex_upper (take 2 (drop 8 b)) @ str ''-''
          @ hex_upper (take 2 (drop 10 b))
      \<and> compressEIDR (Value (NewSegmentationUPID SegmentationUPIDTypeEIDR b)) = b
      \<and> valueBytes (NewSegmentationUPID SegmentationUPIDTypeEIDR b) = Some b"
  proof
    assume a: "length b = 12 \<and> 0x2F \<notin> set b"
    then have "nat_of_bits (bits_of_bytes (take 2 b)) = 256 * unat (b ! 0) + unat (b ! 1)"
      using take2_nth [of b] nat_of_two_bytes [of "b ! 0" "b ! 1"] by simp
    then have "canonicalEIDR b
        = str ''10.'' @ decimal (256 * unat (b ! 0) + unat (b ! 1)) @ str ''/''
          @ hex_upper (take 2 (drop 2 b)) @ str ''-'' @ hex_upper (take 2 (drop 4 b)) @ str ''-''
          @ hex_upper (take 2 (drop 6 b)) @ str ''-'' @ hex_upper (take 2 (drop 8 b)) @ str ''-''
          @ hex_upper (take 2 (drop 10 b))"
      using a by (simp add: canonicalEIDR_def)
    moreover have "compressEIDR (canonicalEIDR b) = b"
      using a compressEIDR_canonicalEIDR [of b] by simp
    ultimately show "Value (NewSegmentationUPID SegmentationUPIDTypeEIDR b)
        = str ''10.'' @ decimal (256 * unat (b ! 0) + unat (b ! 1)) @ str ''/''
          @ hex_upper (take 2 (drop 2 b)) @ str ''-'' @ hex_upper (take 2 (drop 4 b)) @ str ''-''
          @ hex_upper (take 2 (drop 6 b)) @ str ''-'' @ hex_upper (take 2 (drop 8 b)) @ str ''-''
          @ hex_upper (take 2 (drop 10 b))
      \<and> compressEIDR (Value (NewSegmentationUPID SegmentationUPIDTypeEIDR b)) = b
      \<and> valueBytes (NewSegmentationUPID SegmentationUPIDTypeEIDR b) = Some b"
      by (simp only: v vb)
  qed
  have p2: "0x2F \<in> set b \<longrightarrow> Value (NewSegmentationUPID SegmentationUPIDTypeEIDR b) = b"
    by (simp add: v canonicalEIDR_def)
  have p3: "length (FieldsFunc s eidr_separator) \<noteq> 3 \<longrightarrow> compressEIDR s = s" for s
    by (simp add: compressEIDR_def sep)
  have p4: "0x2F \<in> set b \<and> length (FieldsFunc b eidr_separator) \<noteq> 3 \<longrightarrow>
        valueBytes (NewSegmentationUPID SegmentationUPIDTypeEIDR b) = Some b"
    using p3 [of b] by (simp add: vb canonicalEIDR_def)
  have p5: "Type u = SegmentationUPIDTypeEIDR \<longrightarrow> valueBytes u = Some (compressEIDR (Value u))"
    by (simp add: valueBytes_def upid_type_defs)
  have p6: "eidr_compressible s \<longrightarrow>
        compressEIDR s
          = buffer (Write (fst (hexDecodeString (filter (\<lambda>c. c \<noteq> 0x2D) (FieldsFunc s eidr_separator ! 2))))
                     (PutUint32 16 (word_of_int (the (Atoi (FieldsFunc s eidr_separator ! 1))))
                        (NewWriter 12)))
        \<and> length (compressEIDR s) = 12"
    by (auto simp: eidr_compressible_def compressEIDR_def sep Let_def buffer_def
          split: option.splits prod.splits)
  have p7: "\<not> eidr_compressible s \<longrightarrow> compressEIDR s = s"
    by (auto simp: eidr_compressible_def compressEIDR_def sep Let_def
          split: option.splits prod.splits)
  from p1 p2 p3 [of s] p4 p5 p6 p7 show ?thesis by blast
qed

text \<open>
  Instances: the compressed EIDR of seed scenario 7 round-trips; \<open>a/b\<close> has two fields and
  passes through both ways; \<open>10.5239/C370\<close> has three fields that parse and is written as
  twelve bytes; \<open>10.x/C370\<close> has three fields of which the middle one is no number and is
  written unchanged.
\<close>

theorem eidr_codec_witness:
  "length eidr_compressed = 12 \<and> 0x2F \<notin> set eidr_compressed
   \<and> Value (NewSegmentationUPID SegmentationUPIDTypeEIDR eidr_compressed)
       = str ''10.5239/8BE5-E3F6-0000-0000-0000''
   \<and> valueBytes (NewSegmentationUPID SegmentationUPIDTypeEIDR eidr_compressed) = Some eidr_compressed
   \<and> 0x2F \<in> set (str ''a/b'') \<and> length (FieldsFunc (str ''a/b'') eidr_separator) = 2
   \<and> valueBytes (NewSegmentationUPID SegmentationUPIDTypeEIDR (str ''a/b'')) = Some (str ''a/b'')
   \<and> eidr_compressible (str ''10.5239/C370'')
   \<and> compressEIDR (str ''10.5239/C370'') = [0x14, 0x77, 0xC3, 0x70, 0, 0, 0, 0, 0, 0, 0, 0]
   \<and> \<not> eidr_compressible (str ''10.x/C370'')
   \<and> compressEIDR (str ''10.x/C370'') = str ''10.x/C370''
   \<and> valueBytes \<lparr>Type = 0x0A, FormatIdentifier = None, Format = str ''text'',
                    Value = str ''10.x/C370''\<rparr> = Some (str ''10.x/C370'')"
proof -
  have a: "length eidr_compressed = 12 \<and> 0x2F \<notin> set eidr_compressed"
    by (simp add: eidr_compressed_def)
  have b: "str ''10.'' @ decimal (256 * unat (eidr_compressed ! 0) + unat (eidr_compressed ! 1)) @ str ''/''
          @ hex_upper (take 2 (drop 2 eidr_compressed)) @ str ''-''
          @ hex_upper (take 2 (drop 4 eidr_compressed)) @ str ''-''
          @ hex_upper (take 2 (drop 6 eidr_compressed)) @ str ''-''
          @ hex_upper (take 2 (drop 8 eidr_compressed)) @ str ''-''
          @ hex_upper (take 2 (drop 10 eidr_compressed))
        = str ''10.5239/8BE5-E3F6-0000-0000-0000''"
    by (simp add: eidr_compressed_def str_def hex_upper_def hex_char_def digit_char_def decimal.simps)
  have c: "0x2F \<in> set (str ''a/b'') \<and> length (FieldsFunc (str ''a/b'') eidr_separator) = 2"
    by (simp add: str_def FieldsFunc_def eidr_separator_def)
  have f1: "FieldsFunc (str ''10.5239/C370'') eidr_separator = [str ''10'', str ''5239'', str ''C370'']"
    by (simp add: str_def FieldsFunc_def eidr_separator_def)
  have f2: "FieldsFunc (str ''10.x/C370'') eidr_separator = [str ''10'', str ''x'', str ''C370'']"
    by (simp add: str_def FieldsFunc_def eidr_separator_def)
  have at1: "Atoi (str ''5239'') = Some 5239"
    by (simp add: Atoi_def str_def is_digit_def digits_value_def)
  have at2: "Atoi (str ''x'') = None"
    by (simp add: Atoi_def str_def is_digit_def)
  have hx: "hexDecodeString (filter (\<lambda>c. c \<noteq> 0x2D) (str ''C370'')) = ([0xC3, 0x70], True)"
    by (simp add: str_def fromHexChar_def)
  have d: "eidr_compressible (str ''10.5239/C370'')"
    by (simp add: eidr_compressible_def f1 at1 hx)
  have e: "\<not> eidr_compressible (str ''10.x/C370'')"
    by (simp add: eidr_compressible_def f2 at2)
  have g: "buffer (Write [0xC3, 0x70] (PutUint32 16 (word_of_int 5239) (NewWriter 12)))
           = [0x14, 0x77, 0xC3, 0x70, 0, 0, 0, 0, 0, 0, 0, 0]"
    by (simp add: buffer_def eval_bits) (simp add: numeral_eq_Suc nat_of_bits_def)
  have t: "Type \<lparr>Type = 0x0A, FormatIdentifier = None, Format = str ''text'',
                    Value = str ''10.x/C370''\<rparr> = SegmentationUPIDTypeEIDR"
    by (simp add: upid_type_defs)
  let ?u = "\<lparr>Type = 0x0A, FormatIdentifier = None, Format = str ''text'',
             Value = str ''10.x/C370''\<rparr>"
  have n1: "FieldsFunc (str ''10.5239/C370'') eidr_separator ! 1 = str ''5239''"
    and n2: "FieldsFunc (str ''10.5239/C370'') eidr_separator ! 2 = str ''C370''"
    by (simp_all add: f1)
  note r1 = eidr_codec [of eidr_compressed "str ''a/b''" ?u]
  note r2 = eidr_codec [of "str ''a/b''" "str ''10.5239/C370''" ?u]
  note r3 = eidr_codec [of "str ''a/b''" "str ''10.x/C370''" ?u]
  have w1: "Value (NewSegmentationUPID SegmentationUPIDTypeEIDR eidr_compressed)
       = str ''10.5239/8BE5-E3F6-0000-0000-0000''
     \<and> valueBytes (NewSegmentationUPID SegmentationUPIDTypeEIDR eidr_compressed) = Some eidr_compressed"
    using r1 a b by simp
  have w2: "valueBytes (NewSegmentationUPID SegmentationUPIDTypeEIDR (str ''a/b'')) = Some (str ''a/b'')"
    using r2 c by simp
  have "compressEIDR (str ''10.5239/C370'')
          = buffer (Write (fst (hexDecodeString (filter (\<lambda>c. c \<noteq> 0x2D)
                       (FieldsFunc (str ''10.5239/C370'') eidr_separator ! 2))))
                     (PutUint32 16 (word_of_int (the (Atoi (FieldsFunc (str ''10.5239/C370'') eidr_separator ! 1))))
                        (NewWriter 12)))"
    using r2 d by blast
  then have w3: "compressEIDR (str ''10.5239/C370'') = [0x14, 0x77, 0xC3, 0x70, 0, 0, 0, 0, 0, 0, 0, 0]"
    by (simp only: n1 n2 at1 hx fst_conv option.sel g)
  have w4: "compressEIDR (str ''10.x/C370'') = str ''10.x/C370''"
    using r3 e by blast
  have "valueBytes ?u = Some (compressEIDR (Value ?u))"
    using r3 t by blast
  then have w5: "valueBytes ?u = Some (str ''10.x/C370'')"
    using w4 by simp
  from a c d e w1 w2 w3 w4 w5 show ?thesis by simp
qed

subsection \<open>UTF-8 validity of decoded UPID values\<close>

text \<open>
  C8. The value decoder does not always produce valid UTF-8. \<^verbatim>\<open>canonicalEIDR\<close> takes
  every EIDR value that contains the byte 0x2F for canonical text and returns it as it is: the
  compact 12-byte EIDR 14 77 2F 80 DC A5 57 79 7E 7E B5 10, and already the two bytes 2F 80,
  become a \<open>Value\<close> that is not well-formed UTF-8. The plain-text branch of the same
  revision converts such bytes (0x80 becomes EF BF BD). This holds for both revisions of the
  decoder; in the earlier one the plain-text types pass every byte through as well.
\<close>

theorem eidr_value_invalid_utf8:
  "Value (NewSegmentationUPID_ascii SegmentationUPIDTypeEIDR eidr_slash_byte) = eidr_slash_byte
   \<and> utf8_valid eidr_slash_byte = False
   \<and> Value (NewSegmentationUPID_ascii SegmentationUPIDTypeEIDR [0x2F, 0x80]) = [0x2F, 0x80]
   \<and> Value (NewSegmentationUPID SegmentationUPIDTypeEIDR [0x2F, 0x80]) = [0x2F, 0x80]
   \<and> utf8_valid [0x2F, 0x80] = False
   \<and> Value (NewSegmentationUPID 0x09 [0x80]) = [0x80]
   \<and> utf8_valid [0x80] = False
   \<and> Value (NewSegmentationUPID_ascii 0x09 [0x80]) = [0xEF, 0xBF, 0xBD]
   \<and> utf8_valid [0xEF, 0xBF, 0xBD] = True"
  by (simp add: NewSegmentationUPID_ascii_def NewSegmentationUPID_def upid_type_defs
        canonicalEIDR_def NewReader_def LeftBytes_def DecodeASCII_def cont_def eval_bits
        eidr_slash_byte_def)

text \<open>
  What the later revision does guarantee: for every type other than EIDR the decoded
  \<open>Value\<close> is well-formed UTF-8, whatever the raw bytes are.
\<close>

lemma utf8_valid_ascii: "list_all (\<lambda>c. c < 0x80) s \<Longrightarrow> utf8_valid s"
  by (induction s) simp_all

lemma utf8_valid_DecodeASCII: "utf8_valid (DecodeASCII b)"
proof (induction b)
  case Nil
  then show ?case by (simp add: DecodeASCII_def)
next
  case (Cons c cs)
  have "DecodeASCII (c # cs) = (if c > 0x7F then [0xEF, 0xBF, 0xBD] else [c]) @ DecodeASCII cs"
    by (simp add: DecodeASCII_def)
  moreover have "\<not> c > 0x7F \<Longrightarrow> c < 0x80"
    by (simp add: word_less_nat_alt word_le_nat_alt not_less)
  ultimately show ?case using Cons by (simp add: cont_def)
qed

lemma unat_of_nat_ascii: "m < 128 \<Longrightarrow> unat (of_nat m :: byte) < 128"
  by (simp add: unat_of_nat)

lemma b64_char_ascii: "b64_char v < 0x80"
proof -
  have "\<exists>m < 128. b64_char v = of_nat m"
  proof -
    consider "v < 26" | "\<not> v < 26" "v < 52" | "\<not> v < 26" "\<not> v < 52" "v < 62"
      | "\<not> v < 26" "\<not> v < 52" "\<not> v < 62" "v = 62"
      | "\<not> v < 26" "\<not> v < 52" "\<not> v < 62" "v \<noteq> 62"
      by blast
    then show ?thesis
    proof cases
      case 1
      then have "b64_char v = of_nat (65 + v)" unfolding b64_char_def by (simp only: if_True)
      moreover have "65 + v < 128" using 1 by simp
      ultimately show ?thesis by blast
    next
      case 2
      then have "b64_char v = of_nat (71 + v)" unfolding b64_char_def by (simp only: if_True if_False)
      moreover have "71 + v < 128" using 2 by simp
      ultimately show ?thesis by blast
    next
      case 3
      then have "b64_char v = of_nat (v - 4)" unfolding b64_char_def by (simp only: if_True if_False)
      moreover have "v - 4 < 128" using 3 by simp
      ultimately show ?thesis by blast
    next
      case 4
      then have "b64_char v = 0x2B" by (simp add: b64_char_def)
      then have "b64_char v = of_nat 43" by simp
      then show ?thesis by (intro exI [of _ 43]) simp
    next
      case 5
      then have "b64_char v = 0x2F" by (simp add: b64_char_def)
      then have "b64_char v = of_nat 47" by simp
      then show ?thesis by (intro exI [of _ 47]) simp
    qed
  qed
  then obtain m where "m < 128" "b64_char v = of_nat m" by blast
  then have "unat (b64_char v) < 128" using unat_of_nat_ascii [of m] by (simp only:)
  then show ?thesis by (simp add: word_less_nat_alt)
qed

lemma EncodeToString_ascii: "list_all (\<lambda>c. c < 0x80) (EncodeToString b)"
  by (induction b rule: EncodeToString.induct) (simp_all add: b64_char_ascii)

lemma decimal_ascii: "list_all (\<lambda>c. c < 0x80) (decimal n)"
proof -
  have "is_digit c \<Longrightarrow> c < 0x80" for c
    by (simp add: is_digit_def word_less_nat_alt word_le_nat_alt)
  with decimal_digits [of n] show ?thesis by (auto simp: list_all_iff)
qed

lemma upid_value_utf8_except_eidr:
  "upidType \<noteq> SegmentationUPIDTypeEIDR \<Longrightarrow> utf8_valid (Value (NewSegmentationUPID_ascii upidType buf))"
  by (simp add: NewSegmentationUPID_ascii_def Let_def utf8_valid_ascii EncodeToString_ascii
        decimal_ascii utf8_valid_DecodeASCII split: prod.splits)

subsection \<open>Transport stream demultiplexer\<close>

lemma length_heartbeat: "length heartbeat_payload = 184" "length heartbeat_packet = 188"
  by (simp_all add: heartbeat_payload_def heartbeat_packet_def)

lemma length_pat: "length pat_payload = 184" "length pat_packet = 188"
  "length pat_payload2 = 184" "length pat_packet2 = 188"
  by (simp_all add: pat_payload_def pat_packet_def pat_payload2_def pat_packet2_def)

lemma sliceBytes_from:
  "k \<le> len \<Longrightarrow> sliceBytes st (InBuffer (off + k) (len - k)) = drop k (sliceBytes st (InBuffer off len))"
  by (simp add: sliceBytes_def drop_take add.commute)

lemma sliceBytes_sliceFrom:
  "k \<le> sliceLen s \<Longrightarrow> sliceBytes st (sliceFrom s k) = drop k (sliceBytes st s)"
  by (cases s) (simp_all add: sliceBytes_def drop_take add.commute)

lemma sliceBytes_update [simp]:
  "sliceBytes (st\<lparr>last := l\<rparr>) s = sliceBytes st s"
  "sliceBytes (st\<lparr>partial := p\<rparr>) s = sliceBytes st s"
  "sliceBytes (st\<lparr>pktNum := n\<rparr>) s = sliceBytes st s"
  "sliceBytes (st\<lparr>decoded := d\<rparr>) s = sliceBytes st s"
  "sliceBytes (st\<lparr>programs := ps\<rparr>) s = sliceBytes st s"
  "sliceBytes (st\<lparr>pidToProgram := m\<rparr>) s = sliceBytes st s"
  "sliceBytes (st\<lparr>programToPCR := c\<rparr>) s = sliceBytes st s"
  "sliceBytes (st\<lparr>programToPTS := t\<rparr>) s = sliceBytes st s"
  "sliceBytes (st\<lparr>PMTPIDs := a\<rparr>) s = sliceBytes st s"
  "sliceBytes (st\<lparr>PCRPIDs := a\<rparr>) s = sliceBytes st s"
  "sliceBytes (st\<lparr>SCTE35PIDs := a\<rparr>) s = sliceBytes st s"
  by (simp_all add: sliceBytes_def split: slice.splits)

lemma sliceBytes_same_buffer:
  "readBuffer st' = readBuffer st \<Longrightarrow> sliceBytes st' s = sliceBytes st s"
  by (simp add: sliceBytes_def split: slice.splits)

lemma parsePayload_plain:
  assumes "sliceBytes st (InBuffer off 188) = [h0, h1, h2, 0x10] @ pay" "length pay = 184"
  shows "parsePayload st (InBuffer off 188) = Ok (InBuffer (off + 4) 184)"
    and "sliceBytes st (InBuffer (off + 4) 184) = pay"
proof -
  show "parsePayload st (InBuffer off 188) = Ok (InBuffer (off + 4) 184)"
    using assms by (simp add: parsePayload_def at_def packetSize_def)
  have "sliceBytes st (InBuffer (off + 4) (188 - 4)) = drop 4 (sliceBytes st (InBuffer off 188))"
    by (rule sliceBytes_from) simp
  then show "sliceBytes st (InBuffer (off + 4) 184) = pay"
    using assms by simp
qed

lemma indexOf_heartbeat: "indexOf heartbeat_payload [0xfc, 0x30] = Some 0"
  by (simp add: heartbeat_payload_def)

lemma parseScte35_heartbeat:
  assumes "partial st 0x0102 = None" "sliceBytes st (InBuffer off 184) = heartbeat_payload"
  shows "parseScte35 st (InBuffer off 184) 0x0102
   = Ok (st\<lparr>partial := (partial st)(0x0102 := None),
            decoded := decoded st @ [(0x0102, heartbeat_payload)]\<rparr>)"
proof -
  have a: "at heartbeat_payload (Suc 0) = Ok 0x30" "at heartbeat_payload 2 = Ok 0x11"
    by (simp_all add: at_def heartbeat_payload_def)
  have l: "parseLength 0x30 0x11 = 17" by (simp add: parseLength_def)
  show ?thesis
    using assms
    by (simp add: parseScte35_def checkPartial_def splitByIndex_def indexOf_heartbeat a l
          sectionDone_def)
qed

lemma parse_heartbeat:
  assumes "sliceBytes st (InBuffer off 188) = heartbeat_packet"
    "SCTE35PIDs st = [0x0102]" "PMTPIDs st = []" "PCRPIDs st = []" "partial st 0x0102 = None"
  shows "parse st (InBuffer off 188)
         = Some (Ok (st\<lparr>partial := (partial st)(0x0102 := None),
                       decoded := decoded st @ [(0x0102, heartbeat_payload)]\<rparr>))"
proof -
  have pid: "parsePID 0x01 0x02 = 0x0102" by (simp add: parsePID_def)
  have a: "at heartbeat_packet (Suc 0) = Ok 0x01" "at heartbeat_packet 2 = Ok 0x02"
    by (simp_all add: at_def heartbeat_packet_def)
  have b: "sliceBytes st (InBuffer off 188) = [0x47, 0x01, 0x02, 0x10] @ heartbeat_payload"
    using assms(1) by (simp add: heartbeat_packet_def)
  note pp = parsePayload_plain [OF b length_heartbeat(1)]
  have pts: "parsePTS st heartbeat_packet 0x0102 = Ok st"
    by (simp add: parsePTS_def parsePUSI_def at_def heartbeat_packet_def)
  show ?thesis
    using assms
    by (simp add: parse_def a pid pp bind_result_def isPMTPID_def
          isPCRPID_def isSCTE35PID_def pts parseScte35_heartbeat)
qed


lemma two_packets:
  assumes "readBuffer st = p1 @ p2 @ rest" "length p1 = 188" "length p2 = 188"
  shows "sliceBytes st (InBuffer 0 188) = p1" "sliceBytes st (InBuffer 188 188) = p2"
  using assms by (simp_all add: sliceBytes_def)

lemma fileRead_two_packets:
  assumes "length p1 = 188" "length p2 = 188"
  shows "readBuffer (fileRead st (p1 @ p2)) = p1 @ p2 @ drop 376 (readBuffer st)"
  using assms by (simp add: fileRead_def readSize_def packetSize_def)

lemma fileRead_fields [simp]:
  "SCTE35PIDs (fileRead st bs) = SCTE35PIDs st" "PMTPIDs (fileRead st bs) = PMTPIDs st"
  "PCRPIDs (fileRead st bs) = PCRPIDs st" "partial (fileRead st bs) = partial st"
  "last (fileRead st bs) = last st" "decoded (fileRead st bs) = decoded st"
  "programs (fileRead st bs) = programs st" "pktNum (fileRead st bs) = pktNum st"
  "pidToProgram (fileRead st bs) = pidToProgram st"
  by (simp_all add: fileRead_def)





lemma sameAsLast_True:
  "last st pid = Some val \<Longrightarrow> sliceBytes st val = sliceBytes st pay \<Longrightarrow> sameAsLast st pay pid = (True, st)"
  by (simp add: sameAsLast_def)

lemma sameAsLast_recorded:
  assumes "sameAsLast st pay pid = (b, st')"
  shows "map_option (sliceBytes st') (last st' pid) = Some (sliceBytes st pay)"
    and "readBuffer st' = readBuffer st" and "partial st' = partial st"
    and "SCTE35PIDs st' = SCTE35PIDs st" and "PMTPIDs st' = PMTPIDs st"
  using assms by (auto simp: sameAsLast_def split: option.splits if_splits)

lemma checkPartial_None:
  "partial st pid = None \<Longrightarrow> checkPartial st pay pid sep = (splitByIndex st pay sep, st)"
  by (simp add: checkPartial_def)

lemma patLoop_frame_aux:
  assumes "patLoop st pay idx e = Some r"
  shows "\<forall>st'. r = Ok st' \<longrightarrow>
      last st' = last st \<and> readBuffer st' = readBuffer st \<and> SCTE35PIDs st' = SCTE35PIDs st
      \<and> partial st' = partial st"
proof (rule patLoop.raw_induct [where P = "\<lambda>st pay idx e r. \<forall>st'. r = Ok st' \<longrightarrow>
      last st' = last st \<and> readBuffer st' = readBuffer st \<and> SCTE35PIDs st' = SCTE35PIDs st
      \<and> partial st' = partial st", OF _ assms])
  fix f :: "'a Stream_scheme \<Rightarrow> byte list \<Rightarrow> uint16 \<Rightarrow> uint16 \<Rightarrow> 'a Stream_scheme result option"
  fix st :: "'a Stream_scheme" and pay idx e r
  assume ih: "\<And>st pay idx e r. f st pay idx e = Some r \<Longrightarrow> \<forall>st'. r = Ok st' \<longrightarrow>
      last st' = last st \<and> readBuffer st' = readBuffer st \<and> SCTE35PIDs st' = SCTE35PIDs st
      \<and> partial st' = partial st"
  assume b: "(if idx < e then
        (case (at pay (unat idx), at pay (unat (idx + 1))) of
           (Ok a, Ok b) \<Rightarrow>
             (let prgm = parseProgram a b in
              if prgm > 0 then
                (case (at pay (unat (idx + 2)), at pay (unat (idx + 3))) of
                   (Ok c, Ok d) \<Rightarrow>
                     f
                       (addPMTPID
                          (if \<not> isIn16 (programs st) prgm then st\<lparr>programs := programs st @ [prgm]\<rparr>
                           else st)
                          (parsePID c d))
                       pay (idx + 4) e
                 | _ \<Rightarrow> Some Panic)
              else f st pay (idx + 4) e)
         | _ \<Rightarrow> Some Panic)
      else Some (Ok st)) = Some r"
  show "\<forall>st'. r = Ok st' \<longrightarrow>
      last st' = last st \<and> readBuffer st' = readBuffer st \<and> SCTE35PIDs st' = SCTE35PIDs st
      \<and> partial st' = partial st"
    using b
    by (auto simp: Let_def addPMTPID_def dest!: ih split: if_splits result.splits prod.splits)
qed

lemma patLoop_frame:
  assumes "patLoop st pay idx e = Some (Ok st')"
  shows "last st' = last st" "readBuffer st' = readBuffer st" "SCTE35PIDs st' = SCTE35PIDs st"
    "partial st' = partial st"
  using patLoop_frame_aux [OF assms] by simp_all

lemma parseStreams_frame_aux:
  assumes "parseStreams st pay idx e prgm = Some r"
  shows "\<forall>st'. r = Ok st' \<longrightarrow>
      last st' = last st \<and> readBuffer st' = readBuffer st \<and> partial st' = partial st"
proof (rule parseStreams.raw_induct [where P = "\<lambda>st pay idx e prgm r. \<forall>st'. r = Ok st' \<longrightarrow>
      last st' = last st \<and> readBuffer st' = readBuffer st \<and> partial st' = partial st", OF _ assms])
  fix f :: "'a Stream_scheme \<Rightarrow> byte list \<Rightarrow> uint16 \<Rightarrow> uint16 \<Rightarrow> uint16 \<Rightarrow> 'a Stream_scheme result option"
  fix st :: "'a Stream_scheme" and pay idx e prgm r
  assume ih: "\<And>st pay idx e prgm r. f st pay idx e prgm = Some r \<Longrightarrow> \<forall>st'. r = Ok st' \<longrightarrow>
      last st' = last st \<and> readBuffer st' = readBuffer st \<and> partial st' = partial st"
  assume b: "(if idx < e then
        (case (at pay (unat idx), at pay (unat (idx + 1)), at pay (unat (idx + 2)),
               at pay (unat (idx + 3)), at pay (unat (idx + 4))) of
           (Ok streamtype, Ok e1, Ok e2, Ok l1, Ok l2) \<Rightarrow>
             (let elpid = parsePID e1 e2; eilen = parseLength l1 l2 in
              f
                (verifyStreamType (st\<lparr>pidToProgram := (pidToProgram st)(elpid \<mapsto> prgm)\<rparr>) elpid streamtype)
                pay (idx + 5 + eilen) e prgm)
         | _ \<Rightarrow> Some Panic)
      else Some (Ok st)) = Some r"
  show "\<forall>st'. r = Ok st' \<longrightarrow>
      last st' = last st \<and> readBuffer st' = readBuffer st \<and> partial st' = partial st"
    using b
    by (auto simp: Let_def verifyStreamType_def addSCTE35PID_def dest!: ih
          split: if_splits result.splits prod.splits)
qed

lemma parseStreams_frame:
  assumes "parseStreams st pay idx e prgm = Some (Ok st')"
  shows "last st' = last st" "readBuffer st' = readBuffer st" "partial st' = partial st"
  using parseStreams_frame_aux [OF assms] by simp_all

lemma parsePCR_frame:
  "parsePCR st pkt pid = Ok st' \<Longrightarrow> st' = st\<lparr>programToPCR := programToPCR st'\<rparr>"
  by (auto simp: parsePCR_def Let_def split: if_splits result.splits prod.splits)

lemma parsePTS_frame:
  "parsePTS st pkt pid = Ok st' \<Longrightarrow> st' = st\<lparr>programToPTS := programToPTS st'\<rparr>"
  by (auto simp: parsePTS_def Let_def split: if_splits result.splits prod.splits bool.splits option.splits)


lemma sectionDone_frame:
  assumes "sectionDone st pay pid seclen = (b, st')"
  shows "readBuffer st' = readBuffer st \<and> last st' = last st \<and> SCTE35PIDs st' = SCTE35PIDs st
    \<and> (b \<longrightarrow> partial st' pid = None)"
  using assms by (auto simp: sectionDone_def split: if_splits)

lemma patLoop_frame_conj:
  assumes "patLoop st pay idx e = Some (Ok st')"
  shows "last st' = last st \<and> readBuffer st' = readBuffer st \<and> SCTE35PIDs st' = SCTE35PIDs st
    \<and> partial st' = partial st"
  using patLoop_frame_aux [OF assms] by simp

lemma parseStreams_frame_conj:
  assumes "parseStreams st pay idx e prgm = Some (Ok st')"
  shows "last st' = last st \<and> readBuffer st' = readBuffer st \<and> partial st' = partial st"
  using parseStreams_frame_aux [OF assms] by simp

lemma parsePAT_frame:
  assumes "partial st pid = None" "parsePAT st pay pid = Some (Ok st')"
  shows "readBuffer st' = readBuffer st \<and> SCTE35PIDs st' = SCTE35PIDs st
         \<and> map_option (sliceBytes st') (last st' pid) = Some (sliceBytes st pay)"
proof -
  obtain b st1 where s: "sameAsLast st pay pid = (b, st1)"
    by (cases "sameAsLast st pay pid")
  note r = sameAsLast_recorded [OF s]
  have c: "checkPartial st1 pay pid sep = (splitByIndex st1 pay sep, st1)" for sep
    using assms(1) r(3) by (simp add: checkPartial_None)
  have f: "readBuffer st' = readBuffer st1 \<and> last st' = last st1 \<and> SCTE35PIDs st' = SCTE35PIDs st1"
    using assms(2) s c
    by (auto simp: parsePAT_def Let_def split: if_splits result.splits prod.splits bool.splits
          dest!: sectionDone_frame patLoop_frame_conj)
  then have "sliceBytes st' v = sliceBytes st1 v" for v
    using sliceBytes_same_buffer [of st' st1] by simp
  then show ?thesis
    using f r by (cases "last st1 pid") auto
qed

lemma parsePMT_frame:
  assumes "partial st pid = None" "parsePMT st pay pid = Some (Ok st')"
  shows "readBuffer st' = readBuffer st
         \<and> map_option (sliceBytes st') (last st' pid) = Some (sliceBytes st pay)
         \<and> (SCTE35PIDs st' = SCTE35PIDs st \<or> partial st' pid = None)"
proof -
  obtain b st1 where s: "sameAsLast st pay pid = (b, st1)"
    by (cases "sameAsLast st pay pid")
  note r = sameAsLast_recorded [OF s]
  have c: "checkPartial st1 pay pid sep = (splitByIndex st1 pay sep, st1)" for sep
    using assms(1) r(3) by (simp add: checkPartial_None)
  have f: "readBuffer st' = readBuffer st1 \<and> last st' = last st1
           \<and> (SCTE35PIDs st' = SCTE35PIDs st1 \<or> partial st' pid = None)"
    using assms(2) s c
    by (auto simp: parsePMT_def Let_def addPCRPID_def
          split: if_splits result.splits prod.splits bool.splits
          dest!: sectionDone_frame parseStreams_frame_conj)
  then have "sliceBytes st' v = sliceBytes st1 v" for v
    using sliceBytes_same_buffer [of st' st1] by simp
  then show ?thesis
    using f r by (cases "last st1 pid") auto
qed

lemma parseScte35_frame:
  assumes "partial st pid = None" "parseScte35 st pay pid = Ok st'"
  shows "readBuffer st' = readBuffer st \<and> last st' = last st"
  using assms
  by (auto simp: parseScte35_def checkPartial_None delSCTE35PID_def Let_def
        split: if_splits result.splits prod.splits bool.splits dest!: sectionDone_frame)

lemma appendSlice_last:
  "appendSlice (st\<lparr>last := l\<rparr>) val pay
     = (fst (appendSlice st val pay), (snd (appendSlice st val pay))\<lparr>last := l\<rparr>)"
  by (simp add: appendSlice_def split: slice.splits)

lemma splitByIndex_last: "splitByIndex (st\<lparr>last := l\<rparr>) pay sep = splitByIndex st pay sep"
  by (simp add: splitByIndex_def)

lemma splitByIndex_same_buffer:
  "readBuffer st' = readBuffer st \<Longrightarrow> splitByIndex st' pay sep = splitByIndex st pay sep"
  using sliceBytes_same_buffer [of st' st] by (simp add: splitByIndex_def)

lemma checkPartial_last:
  "checkPartial (st\<lparr>last := l\<rparr>) pay pid sep
     = (fst (checkPartial st pay pid sep), (snd (checkPartial st pay pid sep))\<lparr>last := l\<rparr>)"
  by (simp add: checkPartial_def appendSlice_last case_prod_beta splitByIndex_last
        split: option.splits)

lemma sectionDone_last:
  "sectionDone (st\<lparr>last := l\<rparr>) pay pid n
     = (fst (sectionDone st pay pid n), (snd (sectionDone st pay pid n))\<lparr>last := l\<rparr>)"
  by (simp add: sectionDone_def)

lemma delSCTE35PID_last: "delSCTE35PID (st\<lparr>last := l\<rparr>) pid = (delSCTE35PID st pid)\<lparr>last := l\<rparr>"
  by (simp add: delSCTE35PID_def case_prod_beta)

lemma parseScte35_last:
  "parseScte35 (st\<lparr>last := l\<rparr>) pay pid = map_result (\<lambda>s. s\<lparr>last := l\<rparr>) (parseScte35 st pay pid)"
  by (simp add: parseScte35_def checkPartial_last sectionDone_last delSCTE35PID_last
        map_result_def case_prod_beta split: result.splits bool.splits)

lemma appendSlice_keeps_last: "last (snd (appendSlice st val pay)) = last st"
  by (simp add: appendSlice_def split: slice.splits)

lemma checkPartial_keeps_last: "last (snd (checkPartial st pay pid sep)) = last st"
  by (simp add: checkPartial_def case_prod_beta appendSlice_keeps_last split: option.splits)

lemma parseScte35_keeps_last:
  "parseScte35 st pay pid = Ok st' \<Longrightarrow> last st' = last st"
  using checkPartial_keeps_last [of st pay pid "[0xfc, 0x30]"]
  by (auto simp: parseScte35_def sectionDone_def case_prod_beta delSCTE35PID_def
        split: result.splits if_splits)


lemma bind_result_Ok:
  "bind_result m f = Some (Ok y) \<Longrightarrow> \<exists>x. m = Some (Ok x) \<and> f x = Some (Ok y)"
  by (auto simp: bind_result_def split: option.splits result.splits)

lemma clock_frame:
  assumes "(if isPCRPID s pid then parsePCR s bs pid else parsePTS s bs pid) = Ok s'"
  shows "readBuffer s' = readBuffer s \<and> last s' = last s \<and> partial s' = partial s
         \<and> SCTE35PIDs s' = SCTE35PIDs s \<and> PMTPIDs s' = PMTPIDs s \<and> PCRPIDs s' = PCRPIDs s
         \<and> pktNum s' = pktNum s \<and> programs s' = programs s \<and> pidToProgram s' = pidToProgram s
         \<and> decoded s' = decoded s"
proof (cases "isPCRPID s pid")
  case True
  then have "s' = s\<lparr>programToPCR := programToPCR s'\<rparr>" using assms parsePCR_frame by simp
  then show ?thesis by (metis (no_types) Stream.select_convs Stream.surjective Stream.update_convs PIDs.select_convs PIDs.update_convs)
next
  case False
  then have "s' = s\<lparr>programToPTS := programToPTS s'\<rparr>" using assms parsePTS_frame by simp
  then show ?thesis by (metis (no_types) Stream.select_convs Stream.surjective Stream.update_convs PIDs.select_convs PIDs.update_convs)
qed

lemma recorded_skip:
  assumes "map_option (sliceBytes st) (last st pid) = Some (sliceBytes st pay)"
  shows "parsePAT st pay pid = Some (Ok st)" "parsePMT st pay pid = Some (Ok st)"
proof -
  from assms obtain val where "last st pid = Some val" "sliceBytes st val = sliceBytes st pay"
    by (cases "last st pid") auto
  then have "sameAsLast st pay pid = (True, st)" by (rule sameAsLast_True)
  then show "parsePAT st pay pid = Some (Ok st)" "parsePMT st pay pid = Some (Ok st)"
    by (simp_all add: parsePAT_def parsePMT_def)
qed


lemma parse_skip:
  assumes "at (sliceBytes st pkt) 1 = Ok p1" "at (sliceBytes st pkt) 2 = Ok p2"
    "parsePayload st pkt = Ok pay"
    "map_option (sliceBytes st) (last st (parsePID p1 p2)) = Some (sliceBytes st pay)"
  shows "parse st pkt =
     Some (case (if isPCRPID st (parsePID p1 p2) then parsePCR st (sliceBytes st pkt) (parsePID p1 p2)
                 else parsePTS st (sliceBytes st pkt) (parsePID p1 p2)) of
             Panic \<Rightarrow> Panic
           | Ok st3 \<Rightarrow> if isSCTE35PID st (parsePID p1 p2) then parseScte35 st3 pay (parsePID p1 p2)
                       else Ok st3)"
proof -
  let ?pid = "parsePID p1 p2"
  let ?c = "if isPCRPID st ?pid then parsePCR st (sliceBytes st pkt) ?pid
            else parsePTS st (sliceBytes st pkt) ?pid"
  note sk = recorded_skip [OF assms(4)]
  have sk0: "parsePAT st pay 0 = Some (Ok st)" "parsePMT st pay 0 = Some (Ok st)" if "?pid = 0"
    using sk that by simp_all
  have e: "parse st pkt =
     bind_result (Some ?c) (\<lambda>st3. Some (if isSCTE35PID st3 ?pid then parseScte35 st3 pay ?pid else Ok st3))"
    using assms(1-3) by (simp add: parse_def Let_def sk sk0 bind_result_def)
  show ?thesis
  proof (cases ?c)
    case Panic
    then show ?thesis unfolding e by (simp add: bind_result_def)
  next
    case (Ok s')
    from clock_frame [OF Ok] have "isSCTE35PID s' ?pid = isSCTE35PID st ?pid"
      by (simp add: isSCTE35PID_def)
    with Ok show ?thesis unfolding e by (simp add: bind_result_def)
  qed
qed

lemma parse_records:
  assumes "at (sliceBytes st pkt) 1 = Ok p1" "at (sliceBytes st pkt) 2 = Ok p2"
    "parsePayload st pkt = Ok pay"
    "parsePID p1 p2 = 0 \<or> isPMTPID st (parsePID p1 p2)"
    "partial st (parsePID p1 p2) = None" "\<not> isSCTE35PID st (parsePID p1 p2)"
    "parse st pkt = Some (Ok st')"
  shows "readBuffer st' = readBuffer st
     \<and> map_option (sliceBytes st') (last st' (parsePID p1 p2)) = Some (sliceBytes st pay)"
proof -
  let ?pid = "parsePID p1 p2"
  from assms(1,2,3,7) have
    "bind_result (if ?pid = 0 then parsePAT st pay ?pid else Some (Ok st)) (\<lambda>st1.
     bind_result (if isPMTPID st1 ?pid then parsePMT st1 pay ?pid else Some (Ok st1)) (\<lambda>st2.
     bind_result (Some (if isPCRPID st2 ?pid then parsePCR st2 (sliceBytes st2 pkt) ?pid
                        else parsePTS st2 (sliceBytes st2 pkt) ?pid)) (\<lambda>st3.
     Some (if isSCTE35PID st3 ?pid then parseScte35 st3 pay ?pid else Ok st3)))) = Some (Ok st')"
    by (simp add: parse_def Let_def)
  then obtain st1 st2 st3 where
    s1: "(if ?pid = 0 then parsePAT st pay ?pid else Some (Ok st)) = Some (Ok st1)"
    and s2: "(if isPMTPID st1 ?pid then parsePMT st1 pay ?pid else Some (Ok st1)) = Some (Ok st2)"
    and s3: "(if isPCRPID st2 ?pid then parsePCR st2 (sliceBytes st2 pkt) ?pid
              else parsePTS st2 (sliceBytes st2 pkt) ?pid) = Ok st3"
    and s4: "(if isSCTE35PID st3 ?pid then parseScte35 st3 pay ?pid else Ok st3) = Ok st'"
    by (fastforce dest!: bind_result_Ok)
  have r2: "readBuffer st2 = readBuffer st
     \<and> map_option (sliceBytes st2) (last st2 ?pid) = Some (sliceBytes st pay)
     \<and> (SCTE35PIDs st2 = SCTE35PIDs st \<or> partial st2 ?pid = None)"
  proof (cases "?pid = 0")
    case True
    with s1 have "parsePAT st pay ?pid = Some (Ok st1)" by simp
    note f = parsePAT_frame [OF assms(5) this]
    have "sliceBytes st1 pay = sliceBytes st pay"
      using f sliceBytes_same_buffer [of st1 st] by simp
    with f have "map_option (sliceBytes st1) (last st1 ?pid) = Some (sliceBytes st1 pay)" by simp
    from recorded_skip(2) [OF this] s2 have "st2 = st1" by (simp split: if_splits)
    with f show ?thesis by simp
  next
    case False
    with s1 have e: "st1 = st" by simp
    with assms(4) False s2 have "parsePMT st pay ?pid = Some (Ok st2)" by simp
    from parsePMT_frame [OF assms(5) this] show ?thesis .
  qed
  note c = clock_frame [OF s3]
  have r3: "readBuffer st3 = readBuffer st
     \<and> map_option (sliceBytes st3) (last st3 ?pid) = Some (sliceBytes st pay)
     \<and> (SCTE35PIDs st3 = SCTE35PIDs st \<or> partial st3 ?pid = None)"
    using r2 c sliceBytes_same_buffer [of st3 st2] by (cases "last st2 ?pid") auto
  show ?thesis
  proof (cases "isSCTE35PID st3 ?pid")
    case False
    with s4 r3 show ?thesis by simp
  next
    case True
    with assms(6) have "SCTE35PIDs st3 \<noteq> SCTE35PIDs st" by (auto simp: isSCTE35PID_def)
    with r3 have p: "partial st3 ?pid = None" by simp
    from True s4 have "parseScte35 st3 pay ?pid = Ok st'" by simp
    note f = parseScte35_frame [OF p this]
    show ?thesis
      using r3 f sliceBytes_same_buffer [of st' st3] by (cases "last st3 ?pid") auto
  qed
qed


lemma indexOf_pat: "indexOf pat_payload [0x00, 0x00] = Some 0"
  by (simp add: pat_payload_def)

lemma patLoop_done: "patLoop s bs e e = Some (Ok s)"
  by (subst patLoop.simps) simp

lemma parsePAT_pat:
  assumes "sliceBytes st (InBuffer off 184) = pat_payload" "last st 0 = None"
    "partial st 0 = None" "programs st = []" "PMTPIDs st = []"
  shows "parsePAT st (InBuffer off 184) 0
    = Some (Ok (st\<lparr>last := (last st)(0 \<mapsto> InBuffer off 184), partial := (partial st)(0 := None),
                   programs := [1], PMTPIDs := [0x0100]\<rparr>))"
proof -
  have a: "at pat_payload 2 = Ok 0xB0" "at pat_payload 3 = Ok 0x0D"
    "at pat_payload 9 = Ok 0x00" "at pat_payload 10 = Ok 0x01"
    "at pat_payload 11 = Ok 0xE1" "at pat_payload 12 = Ok 0x00"
    by (simp_all add: at_def pat_payload_def)
  have l: "parseLength 0xB0 0x0D = 13" by (simp add: parseLength_def)
  have p: "parseProgram 0x00 0x01 = 1" "parsePID 0xE1 0x00 = 0x0100"
    by (simp_all add: parseProgram_def parsePID_def)
  have loop: "patLoop s pat_payload 9 13
     = Some (Ok (addPMTPID (if \<not> isIn16 (programs s) 1 then s\<lparr>programs := programs s @ [1]\<rparr> else s) 0x0100))"
    for s :: "'a Stream_scheme"
    by (subst patLoop.simps) (simp add: a p patLoop_done)
  show ?thesis
    using assms
    by (simp add: parsePAT_def sameAsLast_def checkPartial_def splitByIndex_def indexOf_pat
          sectionDone_def a l loop addPMTPID_def isPMTPID_def)
qed


lemma parsePTS_pat: "parsePTS st pat_packet 0 = Ok st"
  by (simp add: parsePTS_def parsePUSI_def at_def pat_packet_def pat_payload_def)

lemma parse_pat:
  assumes "sliceBytes st (InBuffer off 188) = pat_packet" "last st 0 = None"
    "partial st 0 = None" "programs st = []" "PMTPIDs st = []" "PCRPIDs st = []" "SCTE35PIDs st = []"
  shows "parse st (InBuffer off 188)
    = Some (Ok (st\<lparr>last := (last st)(0 \<mapsto> InBuffer (off + 4) 184), partial := (partial st)(0 := None),
                   programs := [1], PMTPIDs := [0x0100]\<rparr>))"
proof -
  have pid: "parsePID 0x40 0x00 = 0" by (simp add: parsePID_def)
  have a: "at pat_packet (Suc 0) = Ok 0x40" "at pat_packet 2 = Ok 0x00"
    by (simp_all add: at_def pat_packet_def)
  have b: "sliceBytes st (InBuffer off 188) = [0x47, 0x40, 0x00, 0x10] @ pat_payload"
    using assms(1) by (simp add: pat_packet_def)
  note pp = parsePayload_plain [OF b length_pat(1)]
  note pat = parsePAT_pat [OF pp(2) assms(2-5)]
  show ?thesis
    using assms
    by (simp add: parse_def a pid pp pat bind_result_def isPMTPID_def
          isPCRPID_def isSCTE35PID_def parsePTS_pat)
qed

lemma before_pat_packets:
  "sliceBytes stream_before_pat (InBuffer 0 188) = pat_packet"
  "sliceBytes stream_before_pat (InBuffer 188 188) = pat_packet"
  by (rule two_packets [OF _ length_pat(2) length_pat(2)], simp add: stream_before_pat_def)+

lemma parse_before_pat: "parse stream_before_pat (InBuffer 0 188) = Some (Ok stream_after_pat)"
proof -
  have "parse stream_before_pat (InBuffer 0 188)
    = Some (Ok (stream_before_pat\<lparr>last := (last stream_before_pat)(0 \<mapsto> InBuffer (0 + 4) 184),
          partial := (partial stream_before_pat)(0 := None), programs := [1], PMTPIDs := [0x0100]\<rparr>))"
    by (rule parse_pat [OF before_pat_packets(1)]) (simp_all add: stream_before_pat_def newStream_def)
  then show ?thesis
    by (simp add: stream_after_pat_def stream_before_pat_def newStream_def)
qed

lemma before_pat_payloads:
  "sliceBytes stream_before_pat (InBuffer 4 184) = pat_payload"
  "sliceBytes stream_before_pat (InBuffer 192 184) = pat_payload"
  "parsePayload stream_before_pat (InBuffer 0 188) = Ok (InBuffer 4 184)"
  "parsePayload stream_before_pat (InBuffer 188 188) = Ok (InBuffer 192 184)"
proof -
  have b: "sliceBytes stream_before_pat (InBuffer off 188) = [0x47, 0x40, 0x00, 0x10] @ pat_payload"
    if "off = 0 \<or> off = 188" for off
    using that before_pat_packets by (auto simp: pat_packet_def)
  from parsePayload_plain [OF b length_pat(1), of 0] parsePayload_plain [OF b length_pat(1), of 188]
  show "sliceBytes stream_before_pat (InBuffer 4 184) = pat_payload"
    "sliceBytes stream_before_pat (InBuffer 192 184) = pat_payload"
    "parsePayload stream_before_pat (InBuffer 0 188) = Ok (InBuffer 4 184)"
    "parsePayload stream_before_pat (InBuffer 188 188) = Ok (InBuffer 192 184)"
    by simp_all
qed

lemma after_pat_slices [simp]:
  "sliceBytes stream_after_pat s = sliceBytes stream_before_pat s"
  by (simp add: stream_after_pat_def)

lemma after_pat_fields:
  "readBuffer stream_after_pat = readBuffer stream_before_pat"
  "last stream_after_pat 0 = Some (InBuffer 4 184)" "pktNum stream_after_pat = 1"
  "PCRPIDs stream_after_pat = []" "SCTE35PIDs stream_after_pat = []"
  "partial stream_before_pat 0 = None" "SCTE35PIDs stream_before_pat = []"
  by (simp_all add: stream_after_pat_def stream_before_pat_def newStream_def)

lemma decode_pat_twice:
  "DecodeStream newStream [pat_packet @ pat_packet] = Some (Ok (stream_after_pat\<lparr>pktNum := 2\<rparr>))"
  if s2: "parse (stream_after_pat\<lparr>pktNum := 2\<rparr>) (InBuffer 188 188) = Some (Ok (stream_after_pat\<lparr>pktNum := 2\<rparr>))"
proof -
  let ?st0 = "newStream\<lparr>pidToProgram := Map.empty, last := Map.empty, partial := Map.empty,
           programToPCR := Map.empty, programToPTS := Map.empty, pktNum := 0,
           readBuffer := replicate readSize 0\<rparr>"
  let ?bs = "pat_packet @ pat_packet"
  let ?r = "fileRead ?st0 ?bs"
  have l: "length ?bs = 376" by (simp add: length_pat)
  have st1: "?r\<lparr>pktNum := pktNum ?r + 1\<rparr> = stream_before_pat"
    by (simp add: fileRead_def length_pat stream_before_pat_def newStream_def readSize_def packetSize_def)
  have st3: "stream_after_pat\<lparr>pktNum := pktNum stream_after_pat + 1\<rparr> = stream_after_pat\<lparr>pktNum := 2\<rparr>"
    by (simp add: after_pat_fields)
  have n: "length (take readSize ?bs) div packetSize = Suc (Suc 0)"
    by (simp add: length_pat readSize_def packetSize_def)
  have e: "InBuffer (0 * packetSize) packetSize = InBuffer 0 188"
    "InBuffer ((0 + 1) * packetSize) packetSize = InBuffer 188 188"
    by (simp_all add: packetSize_def)
  have "parsePackets ?r 0 (Suc (Suc 0)) = Some (Ok (stream_after_pat\<lparr>pktNum := 2\<rparr>))"
    by (simp only: parsePackets.simps e st1 st3 parse_before_pat s2 bind_result_def option.case result.case)
  then have "decodeReads ?st0 [?bs] = Some (Ok (stream_after_pat\<lparr>pktNum := 2\<rparr>))"
    by (simp only: decodeReads.simps n bind_result_def option.case result.case)
  then show ?thesis
    by (simp only: DecodeStream_def)
qed

lemma scte35_read_payload:
  "sliceBytes scte35_stream_read (InBuffer 4 184) = heartbeat_payload"
proof -
  have "sliceBytes scte35_stream_read (InBuffer 0 188) = heartbeat_packet"
    by (rule two_packets(1) [OF _ length_heartbeat(2) length_heartbeat(2)])
       (simp add: scte35_stream_read_def)
  then have "sliceBytes scte35_stream_read (InBuffer 0 188) = [0x47, 0x01, 0x02, 0x10] @ heartbeat_payload"
    by (simp add: heartbeat_packet_def)
  from parsePayload_plain(2) [OF this length_heartbeat(1)] show ?thesis by simp
qed

lemma parseScte35_read:
  "parseScte35 scte35_stream_read (InBuffer 4 184) 0x0102
     = Ok (scte35_stream_read\<lparr>decoded := [(0x0102, heartbeat_payload)]\<rparr>)"
proof -
  have "partial scte35_stream_read 0x0102 = None"
    by (simp add: scte35_stream_read_def scte35_stream_def newStream_def)
  from parseScte35_heartbeat [OF this scte35_read_payload] show ?thesis
    by (simp add: scte35_stream_read_def scte35_stream_def newStream_def)
qed



text \<open>
  What is recorded for a PID is a window of the read buffer, and the next read fills the
  buffer again. So the theorem above speaks of the bytes that the recorded slice holds when the
  comparison is made. In the run below the second read delivers, at the place of the first PAT
  packet, a PAT packet that announces program 2: its payload is compared with the bytes of the
  very same window, and program 2 is never registered.
\<close>

lemma one_packet:
  assumes "readBuffer st = p1 @ rest" "length p1 = 188"
  shows "sliceBytes st (InBuffer 0 188) = p1"
  using assms by (simp add: sliceBytes_def)

lemma fileRead_one_packet:
  assumes "length p1 = 188"
  shows "readBuffer (fileRead st p1) = p1 @ drop 188 (readBuffer st)"
  using assms by (simp add: fileRead_def readSize_def packetSize_def)

lemma parsePTS_pat2: "parsePTS st pat_packet2 0 = Ok st"
  by (simp add: parsePTS_def parsePUSI_def at_def pat_packet2_def pat_payload2_def)

lemma parse_pat2_same_window:
  assumes "sliceBytes st (InBuffer off 188) = pat_packet2" "last st 0 = Some (InBuffer (off + 4) 184)"
    "PCRPIDs st = []" "SCTE35PIDs st = []"
  shows "parse st (InBuffer off 188) = Some (Ok st)"
proof -
  have p3: "sliceBytes st (InBuffer off 188) = [0x47, 0x40, 0x00, 0x10] @ pat_payload2"
    using assms(1) by (simp add: pat_packet2_def)
  note pp = parsePayload_plain [OF p3 length_pat(3)]
  have a: "at (sliceBytes st (InBuffer off 188)) 1 = Ok 0x40"
    "at (sliceBytes st (InBuffer off 188)) 2 = Ok 0x00"
    unfolding p3 by (simp_all add: at_def)
  have pid: "parsePID 0x40 0x00 = 0" by (simp add: parsePID_def)
  have l: "map_option (sliceBytes st) (last st (parsePID 0x40 0x00))
           = Some (sliceBytes st (InBuffer (off + 4) 184))"
    using assms(2) by (simp add: pid)
  show ?thesis
    unfolding parse_skip [OF a pp(1) l] pid
    using assms by (simp add: isPCRPID_def isSCTE35PID_def parsePTS_pat2)
qed

lemma recorded_window_overwritten:
  "map_option (map_result programs) (DecodeStream newStream [pat_packet, pat_packet2]) = Some (Ok [1])"
proof -
  let ?st0 = "newStream\<lparr>pidToProgram := Map.empty, last := Map.empty, partial := Map.empty,
           programToPCR := Map.empty, programToPTS := Map.empty, pktNum := 0,
           readBuffer := replicate readSize 0\<rparr>"
  let ?r1 = "fileRead ?st0 pat_packet"
  let ?st1 = "?r1\<lparr>pktNum := pktNum ?r1 + 1\<rparr>"
  have b1: "readBuffer ?st1 = pat_packet @ drop 188 (readBuffer ?st0)"
    using fileRead_one_packet [OF length_pat(2), of ?st0] by simp
  have p1: "sliceBytes ?st1 (InBuffer 0 188) = pat_packet"
    by (rule one_packet [OF b1 length_pat(2)])
  let ?st2 = "?st1\<lparr>last := (last ?st1)(0 \<mapsto> InBuffer (0 + 4) 184),
                  partial := (partial ?st1)(0 := None), programs := [1], PMTPIDs := [0x0100]\<rparr>"
  have s1: "parse ?st1 (InBuffer 0 188) = Some (Ok ?st2)"
    by (rule parse_pat [OF p1]) (simp_all add: newStream_def)
  let ?r2 = "fileRead ?st2 pat_packet2"
  let ?st3 = "?r2\<lparr>pktNum := pktNum ?r2 + 1\<rparr>"
  have b3: "readBuffer ?st3 = pat_packet2 @ drop 188 (readBuffer ?st2)"
    using fileRead_one_packet [OF length_pat(4), of ?st2] by simp
  have p3: "sliceBytes ?st3 (InBuffer 0 188) = pat_packet2"
    by (rule one_packet [OF b3 length_pat(4)])
  have s3: "parse ?st3 (InBuffer 0 188) = Some (Ok ?st3)"
    by (rule parse_pat2_same_window [OF p3]) (simp_all add: newStream_def)
  have n: "length (take readSize pat_packet) div packetSize = Suc 0"
    "length (take readSize pat_packet2) div packetSize = Suc 0"
    by (simp_all add: length_pat readSize_def packetSize_def)
  have e: "InBuffer (0 * packetSize) packetSize = InBuffer 0 188"
    by (simp add: packetSize_def)
  have "parsePackets ?r1 0 (Suc 0) = Some (Ok ?st2)"
    by (simp only: parsePackets.simps e s1 bind_result_def option.case result.case)
  moreover have "parsePackets ?r2 0 (Suc 0) = Some (Ok ?st3)"
    by (simp only: parsePackets.simps e s3 bind_result_def option.case result.case)
  ultimately have "decodeReads ?st0 [pat_packet, pat_packet2] = Some (Ok ?st3)"
    by (simp only: decodeReads.simps n bind_result_def option.case result.case)
  moreover have "programs ?st3 = [1]"
    by simp
  ultimately show ?thesis
    by (simp only: DecodeStream_def map_result_def option.map result.case)
qed

subsection \<open>Splice info section: reading by position\<close>


lemma NewReader_at: "NewReader b = reader_at b 0"
  by (simp add: NewReader_def reader_at_def)

lemma rd_fail_at [simp]: "rd_fail (reader_at b k) = reader_failed" "rd_fail reader_failed = reader_failed"
  by (simp_all add: rd_fail_def reader_at_def reader_failed_def)

lemma LeftBits_at [simp]: "LeftBits (reader_at b k) = 8 * length b - k" "LeftBits reader_failed = 0"
  by (simp_all add: LeftBits_def reader_at_def reader_failed_def)

lemma reader_at_neq_failed [simp]: "reader_at b k \<noteq> reader_failed" "reader_failed \<noteq> reader_at b k"
  by (auto simp: reader_at_def reader_failed_def)

lemma Uint32_at:
  "Uint32 n (reader_at b k) =
     (if n \<le> 8 * length b - k then (of_nat (wire_bits b k n), reader_at b (k + n))
      else (0, reader_failed))"
  by (simp add: Uint32_def wire_bits_def) (simp add: reader_at_def add.commute)

lemma Uint64_at:
  "Uint64 n (reader_at b k) =
     (if n \<le> 8 * length b - k then (of_nat (wire_bits b k n), reader_at b (k + n))
      else (0, reader_failed))"
  by (simp add: Uint64_def wire_bits_def) (simp add: reader_at_def add.commute)

lemma Skip_at:
  "Skip n (reader_at b k) = (if n \<le> 8 * length b - k then reader_at b (k + n) else reader_failed)"
  by (simp add: Skip_def) (simp add: reader_at_def add.commute)

lemma Bit_at:
  "Bit (reader_at b k) =
     (if 1 \<le> 8 * length b - k then (wire_bits b k 1 = 1, reader_at b (k + 1))
      else (False, reader_failed))"
proof (cases "k < 8 * length b")
  case True
  then have "drop k (bits_of_bytes b) \<noteq> []" by simp
  then obtain x xs where d: "drop k (bits_of_bytes b) = x # xs" by (cases "drop k (bits_of_bytes b)") auto
  then have "drop (Suc k) (bits_of_bytes b) = xs"
    by (metis drop_Suc tl_drop list.sel(3))
  with d True show ?thesis
    by (auto simp: Bit_def reader_at_def wire_bits_def nat_of_bits_def)
next
  case False
  then show ?thesis by (simp add: Bit_def reader_at_def rd_fail_def reader_failed_def)
qed

lemma take_drop_bits_of_bytes:
  "take (8 * n) (drop (8 * j) (bits_of_bytes b)) = bits_of_bytes (take n (drop j b))"
proof -
  have d: "drop (8 * j) (bits_of_bytes b) = bits_of_bytes (drop j b)" for j and b :: "byte list"
  proof (induction j arbitrary: b)
    case (Suc j)
    show ?case
    proof (cases b)
      case (Cons a as)
      then show ?thesis using Suc [of as] by (simp add: bits_of_bytes_Cons)
    qed simp
  qed simp
  have t: "take (8 * n) (bits_of_bytes b) = bits_of_bytes (take n b)" for n and b :: "byte list"
  proof (induction n arbitrary: b)
    case (Suc n)
    show ?case
    proof (cases b)
      case (Cons a as)
      then show ?thesis using Suc [of as] by (simp add: bits_of_bytes_Cons)
    qed simp
  qed simp
  show ?thesis by (simp add: d t)
qed

lemma reader_at_byte_neq [simp]: "reader_at_byte b j \<noteq> reader_failed"
  by (simp add: reader_at_byte_def)

lemma Bytes_byte:
  "Bytes n (reader_at_byte b j) =
     (if n \<le> length b - j
      then (take n (drop j b), reader_at_byte b (j + n)) else ([], reader_failed))"
proof -
  have m: "(8 * length b - 8 * j) mod 8 = 0"
    by (metis diff_mult_distrib2 mod_mult_self1_is_0)
  have c: "8 * n \<le> 8 * length b - 8 * j \<longleftrightarrow> n \<le> length b - j" by arith
  have e: "drop (8 * n) (drop (8 * j) (bits_of_bytes b)) = drop (8 * (j + n)) (bits_of_bytes b)"
    by (simp add: algebra_simps)
  have "Bytes n (reader_at b (8 * j)) =
     (if n \<le> length b - j
      then (bytes_of_bits (take (8 * n) (drop (8 * j) (bits_of_bytes b))),
            \<lparr>unread = drop (8 * n) (drop (8 * j) (bits_of_bytes b)), overflow = False\<rparr>)
      else ([], reader_failed))"
    by (simp only: Bytes_def LeftBits_at m c rd_fail_at) (simp add: reader_at_def)
  then show ?thesis
    by (simp only: reader_at_byte_def e take_drop_bits_of_bytes bytes_of_bits_of_bytes reader_at_def)
qed

lemma Uint32_byte:
  "Uint32 (8 * n) (reader_at_byte b j) =
     (if n \<le> length b - j then (of_nat (wire_bits b (8 * j) (8 * n)), reader_at_byte b (j + n))
      else (0, reader_failed))"
proof -
  have c: "8 * n \<le> 8 * length b - 8 * j \<longleftrightarrow> n \<le> length b - j" by arith
  have e: "reader_at b (8 * j + 8 * n) = reader_at b (8 * (j + n))" by (simp add: algebra_simps)
  show ?thesis by (simp only: reader_at_byte_def Uint32_at c e)
qed

lemma Skip_byte:
  "Skip (8 * n) (reader_at_byte b j) =
     (if n \<le> length b - j then reader_at_byte b (j + n) else reader_failed)"
proof -
  have c: "8 * n \<le> 8 * length b - 8 * j \<longleftrightarrow> n \<le> length b - j" by arith
  have e: "reader_at b (8 * j + 8 * n) = reader_at b (8 * (j + n))" by (simp add: algebra_simps)
  show ?thesis by (simp only: reader_at_byte_def Skip_at c e)
qed

lemma ops_failed [simp]:
  "Uint32 n reader_failed = (0, reader_failed)"
  "Uint64 n reader_failed = (0, reader_failed)"
  "Skip n reader_failed = reader_failed"
  "Bit reader_failed = (False, reader_failed)"
  "Bytes n reader_failed = ([], reader_failed)"
  "LeftBytes reader_failed = []"
  "readerError reader_failed = Some ErrBufferOverflow"
  by (auto simp: Uint32_def Uint64_def Skip_def Bit_def Bytes_def LeftBytes_def readerError_def
        reader_failed_def rd_fail_def LeftBits_def)

lemma readerError_at:
  "readerError (reader_at b k) = (if 8 * length b - k > 0 then Some ErrBufferUnderflow else None)"
  by (simp add: readerError_def) (simp add: reader_at_def)

lemmas reader_at_simps = Uint32_at Uint64_at Skip_at Bit_at readerError_at

lemma readerError_byte:
  "readerError (reader_at_byte b j) = (if j < length b then Some ErrBufferUnderflow else None)"
  by (simp add: reader_at_byte_def readerError_at)


lemma Skip_Skip [simp]: "Skip m (Skip n r) = Skip (n + m) r"
  by (auto simp: Skip_def LeftBits_def rd_fail_def add.commute)

lemma read_snd:
  "Uint32 n r = (v, r') \<Longrightarrow> r' = Skip n r"
  "Uint64 n r = (w, r') \<Longrightarrow> r' = Skip n r"
  "Bit r = (x, r') \<Longrightarrow> r' = Skip 1 r"
  by (auto simp: Uint32_def Uint64_def Bit_def Skip_def LeftBits_def rd_fail_def
        split: if_splits list.splits)

lemma decodeHeader_reader: "snd (decodeHeader r) = Skip 112 r"
  by (auto simp: decodeHeader_def split: prod.splits dest!: read_snd)

lemma decodeHeader_ok:
  assumes "14 \<le> length b"
  shows "decodeHeader (NewReader b) = (wire_header b, reader_at_byte b 14)"
proof -
  have c: "n \<le> 8 * length b - k" if "k + n \<le> 112" for k n
    using that assms by arith
  show ?thesis
    using assms
    by (simp add: decodeHeader_def NewReader_at reader_at_simps wire_header_def c
        wire_section_length_def wire_encrypted_def wire_command_length_def wire_command_type_def
        reader_at_byte_def)
qed

lemma decodeHeader_short:
  "length b < 14 \<Longrightarrow> snd (decodeHeader (NewReader b)) = reader_failed"
  by (simp add: decodeHeader_reader NewReader_at Skip_at)

lemma wire_bits_less: "wire_bits b k n < 2 ^ n"
proof -
  have "nat_of_bits (take n (drop k (bits_of_bytes b))) < 2 ^ length (take n (drop k (bits_of_bytes b)))"
    by (rule nat_of_bits_less)
  also have "\<dots> \<le> 2 ^ n" by (rule power_increasing) simp_all
  finally show ?thesis by (simp add: wire_bits_def)
qed

lemma unat_wire32: "n \<le> 32 \<Longrightarrow> unat (of_nat (wire_bits b k n) :: uint32) = wire_bits b k n"
proof -
  assume "n \<le> 32"
  then have "(2::nat) ^ n \<le> 2 ^ 32" by (intro power_increasing) simp_all
  with wire_bits_less [of b k n] have "wire_bits b k n < 2 ^ 32" by simp
  then show ?thesis by (simp add: unat_of_nat)
qed

lemma decodeCommand_byte:
  assumes "splice_command_length h \<noteq> 0xFFF" "unat (splice_command_length h) = n"
  shows "decodeCommand cs h (reader_at_byte b j) =
     (if n \<le> length b - j
      then (fst (decodeSpliceCommand cs (splice_command_type h) (take n (drop j b))),
            snd (decodeSpliceCommand cs (splice_command_type h) (take n (drop j b))), n,
            reader_at_byte b (j + n))
      else (fst (decodeSpliceCommand cs (splice_command_type h) []),
            snd (decodeSpliceCommand cs (splice_command_type h) []), n, reader_failed))"
  using assms
  by (simp add: decodeCommand_def Bytes_byte case_prod_beta)

lemma decodeDescriptorLoop_byte:
  "decodeDescriptorLoop cs (reader_at_byte b j) =
     (if 2 \<le> length b - j then
        (if wire_bits b (8 * j) 16 \<le> length b - (j + 2)
         then (fst (decodeSpliceDescriptors cs (take (wire_bits b (8 * j) 16) (drop (j + 2) b))),
               snd (decodeSpliceDescriptors cs (take (wire_bits b (8 * j) 16) (drop (j + 2) b))),
               wire_bits b (8 * j) 16, reader_at_byte b (j + 2 + wire_bits b (8 * j) 16))
         else (fst (decodeSpliceDescriptors cs []), snd (decodeSpliceDescriptors cs []),
               wire_bits b (8 * j) 16, reader_failed))
      else (fst (decodeSpliceDescriptors cs []), snd (decodeSpliceDescriptors cs []), 0,
            reader_failed))"
  using Uint32_byte [of 2 b j]
  by (simp add: decodeDescriptorLoop_def Bytes_byte unat_wire32 case_prod_beta)

lemma decodeTrailer_byte:
  "decodeTrailer h n (reader_at_byte b j) =
     (if encrypted_packet h then
        (if n + 8 \<le> length b - j
         then (Some (of_nat (wire_bits b (8 * (j + n)) 32)), reader_at_byte b (j + n + 8))
         else (if n + 4 \<le> length b - j then Some (of_nat (wire_bits b (8 * (j + n)) 32)) else Some 0,
               reader_failed))
      else
        (if n + 4 \<le> length b - j then (None, reader_at_byte b (j + n + 4))
         else (None, reader_failed)))"
  using Uint32_byte [of 4 b "j + n"] Uint32_byte [of 4 b "j + n + 4"]
  by (auto simp: decodeTrailer_def Skip_byte case_prod_beta add_ac)

lemma stages_failed [simp]:
  "snd (snd (snd (decodeCommand cs h reader_failed))) = reader_failed"
  "snd (snd (snd (decodeDescriptorLoop cs reader_failed))) = reader_failed"
  "snd (decodeTrailer h n reader_failed) = reader_failed"
  by (simp_all add: decodeCommand_def decodeDescriptorLoop_def decodeTrailer_def case_prod_beta)

lemma first_error_None: "first_error es = None \<longleftrightarrow> (\<forall>e \<in> set es. e = None)"
  by (induction es) (auto simp: first_error_def split: list.splits)


lemma header_fields:
  "unat (splice_command_length (wire_header b)) = wire_command_length b"
  "splice_command_length (wire_header b) = 0xFFF \<longleftrightarrow> wire_command_length b = 0xFFF"
  "splice_command_type (wire_header b) = of_nat (wire_command_type b)"
  "encrypted_packet (wire_header b) = wire_encrypted b"
  "stuffing (wire_header b) (wire_command_length b) (wire_loop_length b) = wire_stuffing b"
proof -
  show u: "unat (splice_command_length (wire_header b)) = wire_command_length b"
    by (simp add: wire_header_def wire_command_length_def unat_wire32)
  have "splice_command_length (wire_header b) = 0xFFF
        \<longleftrightarrow> unat (splice_command_length (wire_header b)) = unat (0xFFF :: uint32)"
    by (simp only: word_unat_eq_iff)
  then show "splice_command_length (wire_header b) = 0xFFF \<longleftrightarrow> wire_command_length b = 0xFFF"
    by (simp add: u)
  show "splice_command_type (wire_header b) = of_nat (wire_command_type b)"
    "encrypted_packet (wire_header b) = wire_encrypted b"
    by (simp_all add: wire_header_def)
  show "stuffing (wire_header b) (wire_command_length b) (wire_loop_length b) = wire_stuffing b"
    by (simp add: stuffing_def wire_stuffing_def wire_lengths_def wire_header_def
          wire_section_length_def unat_wire32)
qed

lemma decodeSection_well_formed:
  assumes "well_formed cs b" "wire_command_length b \<noteq> 0xFFF"
  shows "decodeSection cs b = (wire_value cs b, None)"
proof -
  let ?scl = "wire_command_length b" and ?dll = "wire_loop_length b" and ?st = "wire_stuffing b"
  let ?c = "if wire_encrypted b then 8 else (4::nat)"
  have len: "length b = 16 + ?scl + ?dll + ?c + ?st"
    and ce: "snd (decodeSpliceCommand cs (of_nat (wire_command_type b)) (wire_command b)) = None"
    and de: "snd (decodeSpliceDescriptors cs (wire_descriptors b)) = None"
    using assms(1) by (simp_all add: well_formed_def wire_lengths_def)
  have l14: "14 \<le> length b" using len by simp
  have nl: "splice_command_length (wire_header b) \<noteq> 0xFFF"
    using assms(2) by (simp add: header_fields)
  have cmd: "decodeCommand cs (wire_header b) (reader_at_byte b 14) =
      (fst (decodeSpliceCommand cs (of_nat (wire_command_type b)) (wire_command b)), None, ?scl,
       reader_at_byte b (14 + ?scl))"
    using len ce
    by (simp add: decodeCommand_byte [OF nl header_fields(1)] header_fields wire_command_def)
  have dl: "wire_bits b (8 * (14 + ?scl)) 16 = ?dll" by (simp add: wire_loop_length_def)
  have dsc: "decodeDescriptorLoop cs (reader_at_byte b (14 + ?scl)) =
      (fst (decodeSpliceDescriptors cs (wire_descriptors b)), None, ?dll,
       reader_at_byte b (14 + ?scl + 2 + ?dll))"
    using len de
    by (simp only: decodeDescriptorLoop_byte dl) (simp add: wire_descriptors_def)
  have tr: "decodeTrailer (wire_header b) ?st (reader_at_byte b (14 + ?scl + 2 + ?dll)) =
      (wire_ecrc b, reader_at_byte b (length b))"
    using len
    by (simp only: decodeTrailer_byte header_fields)
       (auto simp: wire_ecrc_def add_ac algebra_simps)
  show ?thesis
    by (simp only: decodeSection_def decodeHeader_ok [OF l14] cmd dsc header_fields tr prod.case)
       (simp add: readerError_byte first_error_def wire_value_def wire_header_def)
qed


lemma decodeSection_error:
  "snd (decodeSection cs b) =
     (let h = fst (decodeHeader (NewReader b));
          cmd = decodeCommand cs h (snd (decodeHeader (NewReader b)));
          dsc = decodeDescriptorLoop cs (snd (snd (snd cmd)))
      in first_error
           [fst (snd cmd), fst (snd dsc),
            readerError
              (snd (decodeTrailer h (stuffing h (fst (snd (snd cmd))) (fst (snd (snd dsc))))
                     (snd (snd (snd dsc)))))])"
  by (simp add: decodeSection_def case_prod_beta Let_def)

lemma decodeSection_ok:
  assumes ok: "snd (decodeSection cs b) = None" and n: "wire_command_length b \<noteq> 0xFFF"
  shows "well_formed cs b"
proof (cases "14 \<le> length b")
  case False
  then have "snd (decodeHeader (NewReader b)) = reader_failed"
    by (simp add: decodeHeader_short)
  then have "snd (decodeSection cs b) \<noteq> None"
    by (simp add: decodeSection_error Let_def first_error_None)
  with ok show ?thesis by simp
next
  case True
  let ?scl = "wire_command_length b" and ?dll = "wire_loop_length b" and ?st = "wire_stuffing b"
  have nl: "splice_command_length (wire_header b) \<noteq> 0xFFF"
    using n by (simp add: header_fields)
  note cmd = decodeCommand_byte [OF nl header_fields(1), of cs b 14]
  have dl: "wire_bits b (8 * (14 + ?scl)) 16 = ?dll" by (simp add: wire_loop_length_def)
  have c1: "?scl \<le> length b - 14"
  proof (rule ccontr)
    assume "\<not> ?scl \<le> length b - 14"
    then have "snd (decodeSection cs b) \<noteq> None"
      by (simp add: decodeSection_error Let_def first_error_None decodeHeader_ok [OF True] cmd)
    with ok show False by simp
  qed
  have cmd': "decodeCommand cs (wire_header b) (reader_at_byte b 14) =
      (fst (decodeSpliceCommand cs (of_nat (wire_command_type b)) (wire_command b)),
       snd (decodeSpliceCommand cs (of_nat (wire_command_type b)) (wire_command b)), ?scl,
       reader_at_byte b (14 + ?scl))"
    using c1 by (simp add: cmd header_fields wire_command_def)
  note dsc = decodeDescriptorLoop_byte [of cs b "14 + ?scl", unfolded dl]
  have c2: "2 \<le> length b - (14 + ?scl) \<and> ?dll \<le> length b - (14 + ?scl + 2)"
  proof (rule ccontr)
    assume "\<not> (2 \<le> length b - (14 + ?scl) \<and> ?dll \<le> length b - (14 + ?scl + 2))"
    then have "snd (snd (snd (decodeDescriptorLoop cs (reader_at_byte b (14 + ?scl))))) = reader_failed"
      by (auto simp: dsc)
    then have "snd (decodeSection cs b) \<noteq> None"
      by (simp add: decodeSection_error Let_def first_error_None decodeHeader_ok [OF True] cmd')
    with ok show False by simp
  qed
  have dsc': "decodeDescriptorLoop cs (reader_at_byte b (14 + ?scl)) =
      (fst (decodeSpliceDescriptors cs (wire_descriptors b)),
       snd (decodeSpliceDescriptors cs (wire_descriptors b)), ?dll,
       reader_at_byte b (14 + ?scl + 2 + ?dll))"
    using c2 by (simp only: dsc) (simp add: wire_descriptors_def)
  note tr = decodeTrailer_byte [of "wire_header b" ?st b "14 + ?scl + 2 + ?dll"]
  have fin: "readerError (snd (decodeTrailer (wire_header b) ?st (reader_at_byte b (14 + ?scl + 2 + ?dll)))) = None
      \<and> snd (decodeSpliceCommand cs (of_nat (wire_command_type b)) (wire_command b)) = None
      \<and> snd (decodeSpliceDescriptors cs (wire_descriptors b)) = None"
    using ok
    by (simp only: decodeSection_error Let_def decodeHeader_ok [OF True] cmd' dsc' fst_conv snd_conv
          header_fields first_error_None) simp
  then have "length b = 16 + ?scl + ?dll + (if wire_encrypted b then 8 else 4) + ?st"
    using c1 c2
    by (simp only: tr header_fields)
       (auto simp: readerError_byte split: if_splits)
  with fin show ?thesis
    by (simp add: well_formed_def wire_lengths_def)
qed

lemma decodeSection_iff:
  assumes "wire_command_length b \<noteq> 0xFFF"
  shows "decodeSection cs b = (sis, None) \<longleftrightarrow> well_formed cs b \<and> sis = wire_value cs b"
  using decodeSection_ok [OF _ assms, of cs] decodeSection_well_formed [OF _ assms, of cs]
  by auto


lemma length_be32 [simp]: "length (be32 v) = 4"
  by (simp add: be32_def)

lemma nat_of_bits_be32: "nat_of_bits (bits_of_bytes (be32 v)) = unat v"
proof -
  have "unat v < 2 ^ 32" using unsigned_less [of v, where 'a = nat] by simp
  then show ?thesis by (simp add: be32_def bits_of_bytes_of_bits nat_of_bits_to_bits)
qed

lemma length_repair_crc: "4 \<le> length b \<Longrightarrow> length (repair_crc b) = length b"
  by (simp add: repair_crc_def)

lemma verifyCRC32_repair: "4 \<le> length b \<Longrightarrow> verifyCRC32 (repair_crc b)"
  by (simp add: verifyCRC32_def repair_crc_def nat_of_bits_be32)

lemma take_drop_append_le:
  "k + n \<le> length xs \<Longrightarrow> take n (drop k (xs @ ys)) = take n (drop k xs)"
  by simp

lemma wire_bits_repair:
  assumes "k + n \<le> 8 * (length b - 4)"
  shows "wire_bits (repair_crc b) k n = wire_bits b k n"
proof -
  let ?p = "take (length b - 4) b"
  have l: "k + n \<le> length (bits_of_bytes ?p)" using assms by simp
  have b: "bits_of_bytes b = bits_of_bytes ?p @ bits_of_bytes (drop (length b - 4) b)"
    by (simp add: bits_of_bytes_append [symmetric])
  have "take n (drop k (bits_of_bytes b)) = take n (drop k (bits_of_bytes ?p))"
    by (subst b) (rule take_drop_append_le [OF l])
  moreover have "take n (drop k (bits_of_bytes (repair_crc b))) = take n (drop k (bits_of_bytes ?p))"
    unfolding repair_crc_def bits_of_bytes_append by (rule take_drop_append_le [OF l])
  ultimately show ?thesis by (simp add: wire_bits_def)
qed

lemma take_drop_repair:
  assumes "j + n \<le> length b - 4"
  shows "take n (drop j (repair_crc b)) = take n (drop j b)"
proof -
  let ?p = "take (length b - 4) b"
  have l: "j + n \<le> length ?p" using assms by simp
  have b: "b = ?p @ drop (length b - 4) b" by simp
  have "take n (drop j b) = take n (drop j ?p)"
    by (subst b) (rule take_drop_append_le [OF l])
  moreover have "take n (drop j (repair_crc b)) = take n (drop j ?p)"
    unfolding repair_crc_def by (rule take_drop_append_le [OF l])
  ultimately show ?thesis by simp
qed


lemma repair_well_formed:
  assumes wf: "well_formed cs b"
  shows "well_formed cs (repair_crc b) \<and> wire_value cs (repair_crc b) = wire_value cs b"
proof -
  let ?r = "repair_crc b"
  let ?scl = "wire_command_length b" and ?dll = "wire_loop_length b" and ?st = "wire_stuffing b"
  have len: "length b = 16 + ?scl + ?dll + (if wire_encrypted b then 8 else 4) + ?st"
    using wf by (simp add: well_formed_def wire_lengths_def)
  then have l4: "4 \<le> length b" by simp
  have lr: "length ?r = length b" using l4 by (rule length_repair_crc)
  have hd: "wire_bits ?r k n = wire_bits b k n" if "k + n \<le> 112" for k n
    using that len by (intro wire_bits_repair) simp
  have scl: "wire_command_length ?r = ?scl" by (simp add: wire_command_length_def hd)
  have sct: "wire_command_type ?r = wire_command_type b" by (simp add: wire_command_type_def hd)
  have enc: "wire_encrypted ?r = wire_encrypted b" by (simp add: wire_encrypted_def hd)
  have sl: "wire_section_length ?r = wire_section_length b" by (simp add: wire_section_length_def hd)
  have dll: "wire_loop_length ?r = ?dll"
    unfolding wire_loop_length_def scl using len by (intro wire_bits_repair) simp
  have cmd: "wire_command ?r = wire_command b"
    unfolding wire_command_def scl using len by (intro take_drop_repair) simp
  have dsc: "wire_descriptors ?r = wire_descriptors b"
    unfolding wire_descriptors_def scl dll using len by (intro take_drop_repair) simp
  have st: "wire_stuffing ?r = ?st" "wire_lengths ?r = wire_lengths b"
    by (simp_all add: wire_stuffing_def wire_lengths_def sl scl dll enc)
  have ecrc: "wire_ecrc ?r = wire_ecrc b"
  proof (cases "wire_encrypted b")
    case True
    then have "8 * (length b - 8) + 32 \<le> 8 * (length b - 4)" using len by simp
    then have "wire_bits ?r (8 * (length b - 8)) 32 = wire_bits b (8 * (length b - 8)) 32"
      by (rule wire_bits_repair)
    then show ?thesis by (simp add: wire_ecrc_def enc lr)
  next
    case False
    then show ?thesis by (simp add: wire_ecrc_def enc)
  qed
  have "well_formed cs ?r"
    using wf by (simp add: well_formed_def lr st sct cmd dsc)
  moreover have "wire_value cs ?r = wire_value cs b"
    by (simp add: wire_value_def hd enc sct cmd dsc ecrc)
  ultimately show ?thesis by simp
qed

lemma Decode_repair:
  assumes "decodeSection cs b = (sis, None)" "wire_command_length b \<noteq> 0xFFF"
  shows "sis = wire_value cs b" "Decode cs (repair_crc b) = (sis, None)"
proof -
  have wf: "well_formed cs b" and v: "sis = wire_value cs b"
    using assms by (simp_all add: decodeSection_iff)
  show "sis = wire_value cs b" by (rule v)
  have l20: "20 \<le> length b" using wf by (simp add: well_formed_def wire_lengths_def)
  then have l4: "4 \<le> length b" by simp
  have "wire_command_length (repair_crc b) = wire_command_length b"
    using l20 by (simp add: wire_command_length_def wire_bits_repair)
  then have "decodeSection cs (repair_crc b) = (sis, None)"
    using repair_well_formed [OF wf] assms(2) v by (simp add: decodeSection_iff)
  then show "Decode cs (repair_crc b) = (sis, None)"
    using verifyCRC32_repair [OF l4] by (simp add: Decode_def)
qed


subsection \<open>Splice info section: evaluation on the test vectors\<close>


lemmas eval_section = decodeSection_def decodeHeader_def decodeCommand_def decodeDescriptorLoop_def
  decodeTrailer_def stuffing_def first_error_def basic_codecs_def decodeSpliceCommand_basic_def
  decodeTimeSignal_def decodeSpliceDescriptors_basic.simps decodeSpliceDescriptor_def

lemma crc_invalid: "crc32 (take 55 invalid_crc_section) = 0xA7983B73"
  by (simp add: invalid_crc_section_def crc32_def crc_shift_def eval_bits)

lemma decodeSection_invalid_crc:
  "decodeSection (basic_codecs 0xFFFFFFFF) invalid_crc_section = (invalid_crc_value, None)"
  by (simp add: invalid_crc_section_def invalid_crc_value_def eval_section eval_reader eval_bits)

lemma length_invalid_crc: "length invalid_crc_section = 59"
  by (simp add: invalid_crc_section_def)

lemma not_verify_invalid_crc: "\<not> verifyCRC32 invalid_crc_section"
  by (simp add: verifyCRC32_def length_invalid_crc crc_invalid)
     (simp add: invalid_crc_section_def eval_bits)

lemma base64_invalid_crc: "DecodeString invalid_crc_base64 = (invalid_crc_section, True)"
  by (simp add: invalid_crc_base64_def invalid_crc_section_def DecodeString_def str_def b64_value_def)

lemma hex_invalid_crc:
  "hexDecodeString (if take 2 invalid_crc_hex = str ''0x'' then drop 2 invalid_crc_hex else invalid_crc_hex)
     = (invalid_crc_section, True)"
  by (simp add: invalid_crc_hex_def invalid_crc_section_def str_def fromHexChar_def)

lemma command_length_invalid_crc: "wire_command_length invalid_crc_section = 20"
  by (simp add: wire_command_length_def wire_bits_def invalid_crc_section_def eval_bits)

lemma repair_invalid_crc:
  "repair_crc invalid_crc_section = take 55 invalid_crc_section @ [0xA7, 0x98, 0x3B, 0x73]"
  by (simp add: repair_crc_def length_invalid_crc crc_invalid be32_def eval_bits)


end
